theory Spec2Isabelle
  imports Main
begin

section \<open>Paths, errors and file information\<close>

text \<open>
  A path is a cleaned, slash-separated path, kept as the list of its elements:
  \<open>/music/a/x.mp3\<close> is \<open>[''music'', ''a'', ''x.mp3'']\<close> and the root (Go's \<open>/\<close>, or
  the empty base folder of \<open>OrphanScan\<close>) is \<open>[]\<close>. \<open>path.Dir\<close> drops the last
  element, \<open>path.Base\<close> returns it, and \<open>path.Ext\<close> is the suffix of the last element
  that starts at its final dot.
\<close>

type_synonym path = "string list"

definition path_Dir :: "path \<Rightarrow> path" where
  "path_Dir p = butlast p"

definition path_Base :: "path \<Rightarrow> string" where
  "path_Base p = (if p = [] then ''/'' else last p)"

definition name_Ext :: "string \<Rightarrow> string" where
  "name_Ext s =
     (if CHR ''.'' \<in> set s
      then CHR ''.'' # rev (takeWhile (\<lambda>c. c \<noteq> CHR ''.'') (rev s))
      else [])"

definition path_Ext :: "path \<Rightarrow> string" where
  "path_Ext p = (if p = [] then [] else name_Ext (last p))"

text \<open>
  Go errors as values. \<open>ErrNoRows\<close> is \<open>sql.ErrNoRows\<close>, \<open>ErrNotExist\<close> is an error for
  which \<open>os.IsNotExist\<close> holds, \<open>ErrHalted\<close> is
  \<open>errors.New("media scan: halted by channel")\<close>, \<open>ErrInvalidPath p\<close> is
  \<open>errors.New("media scan: invalid path: " + p)\<close>, \<open>ErrTagRead p e\<close> is
  \<open>fmt.Errorf("%s: %s", p, e.Error())\<close>, \<open>ErrInvalidFileType x\<close> is
  \<open>fmt.Errorf("fs: invalid file type: %s", x)\<close>, and \<open>Failure m\<close> is any other error
  of the store, the filesystem or the tag library, with its message.
\<close>

datatype error =
    ErrNoRows
  | ErrNotExist
  | ErrHalted
  | ErrInvalidPath path
  | ErrTagRead path error
  | ErrInvalidFileType string
  | Failure string

definition os_IsNotExist :: "error option \<Rightarrow> bool" where
  "os_IsNotExist r = (r = Some ErrNotExist)"

text \<open>\<open>os.FileInfo\<close>: the fields the scans read.\<close>

record fileInfo =
  info_Name :: string
  info_Size :: int
  info_ModTime :: int
  info_IsDir :: bool

section \<open>Records of the store\<close>

text \<open>
  Every record of package \<open>data\<close> carries a numeric \<open>ID\<close>; the zero value of a Go struct
  (\<open>new(data.Folder)\<close>) has \<open>ID = 0\<close> and empty fields.
\<close>

record ident =
  ID :: nat

record folder = ident +
  folder_ParentID :: nat
  folder_Title :: string
  folder_Path :: path

record artist = ident +
  artist_Title :: string

record album = ident +
  album_Artist :: string
  album_ArtistID :: nat
  album_Title :: string
  album_Year :: int

record song = ident +
  song_Album :: string
  song_AlbumID :: nat
  song_ArtID :: nat
  song_Artist :: string
  song_ArtistID :: nat
  song_FileName :: path
  song_FileSize :: int
  song_FileTypeID :: int
  song_FolderID :: nat
  song_LastModified :: int
  song_Title :: string
  song_Year :: int

record art = ident +
  art_FileName :: path
  art_FileSize :: int
  art_LastModified :: int

definition new_Folder :: folder where
  "new_Folder = \<lparr>ID = 0, folder_ParentID = 0, folder_Title = [], folder_Path = []\<rparr>"

definition new_Art :: art where
  "new_Art = \<lparr>ID = 0, art_FileName = [], art_FileSize = 0, art_LastModified = 0\<rparr>"

definition new_Song :: song where
  "new_Song = \<lparr>ID = 0, song_Album = [], song_AlbumID = 0, song_ArtID = 0, song_Artist = [],
     song_ArtistID = 0, song_FileName = [], song_FileSize = 0, song_FileTypeID = 0,
     song_FolderID = 0, song_LastModified = 0, song_Title = [], song_Year = 0\<rparr>"

text \<open>
  Modelled from the spec: \<open>data.ArtistFromSong\<close> and \<open>data.AlbumFromSong\<close> are not among
  the sources. The spec keys an Artist by its title and an Album by (artist ID, title),
  with the denormalized artist name and the release year as attributes; both records are
  derived from the song's tag fields and have no identity yet.
\<close>

definition ArtistFromSong :: "song \<Rightarrow> artist" where
  "ArtistFromSong s = \<lparr>ID = 0, artist_Title = song_Artist s\<rparr>"

definition AlbumFromSong :: "song \<Rightarrow> album" where
  "AlbumFromSong s =
     \<lparr>ID = 0, album_Artist = song_Artist s, album_ArtistID = 0,
      album_Title = song_Album s, album_Year = song_Year s\<rparr>"

section \<open>Tables\<close>

text \<open>
  Modelled from the spec: the persistent store is not among the sources. A table keeps
  the row with identity \<open>i\<close> at position \<open>i - 1\<close>; a deleted row leaves \<open>None\<close> behind,
  so that identities are never reused. A row read from the table carries the identity of
  its position.
\<close>

type_synonym 'a table = "'a option list"

fun rows_from :: "nat \<Rightarrow> ('a ident_scheme) table \<Rightarrow> 'a ident_scheme list" where
  "rows_from n [] = []"
| "rows_from n (None # t) = rows_from (Suc n) t"
| "rows_from n (Some r # t) = r\<lparr>ID := Suc n\<rparr> # rows_from (Suc n) t"

definition rows :: "('a ident_scheme) table \<Rightarrow> 'a ident_scheme list" where
  "rows t = rows_from 0 t"

definition tbl_find :: "('a ident_scheme \<Rightarrow> bool) \<Rightarrow> ('a ident_scheme) table \<Rightarrow> 'a ident_scheme option"
  where
  "tbl_find P t = find P (rows t)"

definition tbl_has :: "nat \<Rightarrow> 'a table \<Rightarrow> bool" where
  "tbl_has i t = (0 < i \<and> i \<le> length t \<and> t ! (i - 1) \<noteq> None)"

definition tbl_insert :: "'a ident_scheme \<Rightarrow> ('a ident_scheme) table \<Rightarrow> ('a ident_scheme) table" where
  "tbl_insert r t = t @ [Some (r\<lparr>ID := Suc (length t)\<rparr>)]"

definition tbl_update :: "'a ident_scheme \<Rightarrow> ('a ident_scheme) table \<Rightarrow> ('a ident_scheme) table" where
  "tbl_update r t = (if tbl_has (ID r) t then t[ID r - 1 := Some r] else t)"

definition tbl_delete :: "nat \<Rightarrow> 'a table \<Rightarrow> 'a table" where
  "tbl_delete i t = (if tbl_has i t then t[i - 1 := None] else t)"

section \<open>The world: store, call log, environment\<close>

text \<open>
  Every call that leaves the scan (to the store, the filesystem or the tag library) is
  named by a \<open>call\<close>; the world logs each call with the error it returned.
\<close>

datatype call =
    ReadDir path
  | Stat path
  | TagRead path
  | SongFromFile path
  | FolderLoad path
  | ParentFolderLoad path
  | FolderSave path
  | FolderDelete nat
  | ArtLoad path
  | ArtSave path
  | ArtDelete nat
  | ArtistLoad string
  | ArtistSave string
  | AlbumLoad nat string
  | AlbumSave nat string
  | SongLoad path
  | SongSave path
  | SongUpdate nat
  | ArtSongUpdate nat
  | SongDelete nat
  | SongsForFolder nat
  | ArtNotInPath path
  | SongsNotInPath path
  | FoldersNotInPath path
  | ArtInPath path
  | SongsInPath path
  | FoldersInPath path
  | PurgeOrphanAlbums
  | PurgeOrphanArtists

record world =
  Folders :: "folder table"
  Artists :: "artist table"
  Albums :: "album table"
  Songs :: "song table"
  Arts :: "art table"
  calls :: "(call \<times> error option) list"

record tagFile =
  tag_Title :: string
  tag_Artist :: string
  tag_Album :: string
  tag_Year :: int

text \<open>
  The environment of one scan: what \<open>filepath.Walk\<close> presents to its callback for a
  root (each visited path with its \<open>os.FileInfo\<close>, \<open>None\<close> for \<open>nil\<close>), the results of
  \<open>ioutil.ReadDir\<close>, \<open>os.Stat\<close>, \<open>taglib.Read\<close> and \<open>data.SongFromFile\<close>, the extension
  sets \<open>mediaSet\<close> and \<open>artSet\<close>, the table \<open>data.FileTypeMap\<close>, and \<open>fault\<close>: the
  error, if any, with which the store fails a call.
\<close>

record env =
  walk :: "path \<Rightarrow> (path \<times> fileInfo option) list"
  readDir :: "path \<Rightarrow> error + string list"
  stat :: "path \<Rightarrow> error + fileInfo"
  tagRead :: "path \<Rightarrow> error + tagFile"
  songFromFile :: "tagFile \<Rightarrow> error + song"
  mediaSet :: "string set"
  artSet :: "string set"
  FileTypeMap :: "string \<rightharpoonup> int"
  fault :: "call \<Rightarrow> error option"

definition logCall :: "call \<Rightarrow> error option \<Rightarrow> world \<Rightarrow> world" where
  "logCall c r w = w\<lparr>calls := calls w @ [(c, r)]\<rparr>"

definition errOf :: "error + 'a \<Rightarrow> error option" where
  "errOf r = (case r of Inl e \<Rightarrow> Some e | Inr _ \<Rightarrow> None)"

text \<open>
  A store call: it fails with the environment's fault when there is one, and otherwise
  runs; either way the call and its error are logged.
\<close>

definition storeCall ::
  "env \<Rightarrow> call \<Rightarrow> (world \<Rightarrow> (error + 'a) \<times> world) \<Rightarrow> world \<Rightarrow> (error + 'a) \<times> world" where
  "storeCall E c act w =
     (case fault E c of
        Some e \<Rightarrow> (Inl e, logCall c (Some e) w)
      | None \<Rightarrow> (case act w of (r, w') \<Rightarrow> (r, logCall c (errOf r) w')))"

text \<open>A call to the filesystem or the tag library: its result comes from the environment.\<close>

definition sysCall :: "call \<Rightarrow> error + 'a \<Rightarrow> world \<Rightarrow> (error + 'a) \<times> world" where
  "sysCall c r w = (r, logCall c (errOf r) w)"

definition found :: "'a option \<Rightarrow> error + 'a" where
  "found r = (case r of None \<Rightarrow> Inl ErrNoRows | Some x \<Rightarrow> Inr x)"

section \<open>The record store gateway\<close>

text \<open>
  Modelled from the spec: the methods of package \<open>data\<close> are not among the sources.
  \<open>Load\<close> takes a record with its identity fields set and returns the stored record or
  fails with not-found; \<open>Save\<close> assigns the identity and persists; \<open>Update\<close> persists
  the fields of the record with the given identity (no row with that identity: nothing
  changes); \<open>Delete\<close> removes. A call that fails leaves the Go struct as it was.
\<close>

definition Folder_Load :: "env \<Rightarrow> call \<Rightarrow> folder \<Rightarrow> world \<Rightarrow> (error + folder) \<times> world" where
  "Folder_Load E c f =
     storeCall E c (\<lambda>w. (found (tbl_find (\<lambda>r. folder_Path r = folder_Path f) (Folders w)), w))"

definition Folder_Save :: "env \<Rightarrow> folder \<Rightarrow> world \<Rightarrow> (error + folder) \<times> world" where
  "Folder_Save E f =
     storeCall E (FolderSave (folder_Path f))
       (\<lambda>w. (Inr (f\<lparr>ID := Suc (length (Folders w))\<rparr>), w\<lparr>Folders := tbl_insert f (Folders w)\<rparr>))"

definition Art_Load :: "env \<Rightarrow> art \<Rightarrow> world \<Rightarrow> (error + art) \<times> world" where
  "Art_Load E a =
     storeCall E (ArtLoad (art_FileName a))
       (\<lambda>w. (found (tbl_find (\<lambda>r. art_FileName r = art_FileName a) (Arts w)), w))"

definition Art_Save :: "env \<Rightarrow> art \<Rightarrow> world \<Rightarrow> (error + art) \<times> world" where
  "Art_Save E a =
     storeCall E (ArtSave (art_FileName a))
       (\<lambda>w. (Inr (a\<lparr>ID := Suc (length (Arts w))\<rparr>), w\<lparr>Arts := tbl_insert a (Arts w)\<rparr>))"

definition Artist_Load :: "env \<Rightarrow> artist \<Rightarrow> world \<Rightarrow> (error + artist) \<times> world" where
  "Artist_Load E a =
     storeCall E (ArtistLoad (artist_Title a))
       (\<lambda>w. (found (tbl_find (\<lambda>r. artist_Title r = artist_Title a) (Artists w)), w))"

definition Artist_Save :: "env \<Rightarrow> artist \<Rightarrow> world \<Rightarrow> (error + artist) \<times> world" where
  "Artist_Save E a =
     storeCall E (ArtistSave (artist_Title a))
       (\<lambda>w. (Inr (a\<lparr>ID := Suc (length (Artists w))\<rparr>), w\<lparr>Artists := tbl_insert a (Artists w)\<rparr>))"

definition Album_Load :: "env \<Rightarrow> album \<Rightarrow> world \<Rightarrow> (error + album) \<times> world" where
  "Album_Load E a =
     storeCall E (AlbumLoad (album_ArtistID a) (album_Title a))
       (\<lambda>w. (found (tbl_find (\<lambda>r. album_ArtistID r = album_ArtistID a \<and> album_Title r = album_Title a)
                      (Albums w)), w))"

definition Album_Save :: "env \<Rightarrow> album \<Rightarrow> world \<Rightarrow> (error + album) \<times> world" where
  "Album_Save E a =
     storeCall E (AlbumSave (album_ArtistID a) (album_Title a))
       (\<lambda>w. (Inr (a\<lparr>ID := Suc (length (Albums w))\<rparr>), w\<lparr>Albums := tbl_insert a (Albums w)\<rparr>))"

definition Song_Load :: "env \<Rightarrow> song \<Rightarrow> world \<Rightarrow> (error + song) \<times> world" where
  "Song_Load E s =
     storeCall E (SongLoad (song_FileName s))
       (\<lambda>w. (found (tbl_find (\<lambda>r. song_FileName r = song_FileName s) (Songs w)), w))"

definition Song_Save :: "env \<Rightarrow> song \<Rightarrow> world \<Rightarrow> (error + song) \<times> world" where
  "Song_Save E s =
     storeCall E (SongSave (song_FileName s))
       (\<lambda>w. (Inr (s\<lparr>ID := Suc (length (Songs w))\<rparr>), w\<lparr>Songs := tbl_insert s (Songs w)\<rparr>))"

definition Song_Update :: "env \<Rightarrow> call \<Rightarrow> song \<Rightarrow> world \<Rightarrow> (error + unit) \<times> world" where
  "Song_Update E c s = storeCall E c (\<lambda>w. (Inr (), w\<lparr>Songs := tbl_update s (Songs w)\<rparr>))"

definition DB_SongsForFolder :: "env \<Rightarrow> nat \<Rightarrow> world \<Rightarrow> (error + song list) \<times> world" where
  "DB_SongsForFolder E fid =
     storeCall E (SongsForFolder fid)
       (\<lambda>w. (Inr (filter (\<lambda>s. song_FolderID s = fid) (rows (Songs w))), w))"

section \<open>MediaScan\<close>

text \<open>
  The closure variables of \<open>MediaScan\<close>: the store behind \<open>data.DB\<close>, the three caches,
  the slice \<open>artFiles\<close> of (folder ID, art ID) pairs, and the six counters. The caches
  hold pointers in the source; no cached struct is written after it is cached, so the
  model holds values.
\<close>

record scan =
  db :: world
  folderCache :: "path \<rightharpoonup> folder"
  artistCache :: "string \<rightharpoonup> artist"
  albumCache :: "nat \<times> string \<rightharpoonup> album"
  artFiles :: "(nat \<times> nat) list"
  artCount :: nat
  artistCount :: nat
  albumCount :: nat
  songCount :: nat
  songUpdateCount :: nat
  folderCount :: nat

definition newScan :: "world \<Rightarrow> scan" where
  "newScan w =
     \<lparr>db = w, folderCache = Map.empty, artistCache = Map.empty, albumCache = Map.empty,
      artFiles = [], artCount = 0, artistCount = 0, albumCount = 0, songCount = 0,
      songUpdateCount = 0, folderCount = 0\<rparr>"

text \<open>A block of the callback either returns from it (\<open>return nil\<close>, \<open>return err\<close>) or goes on.\<close>

datatype 'a step = Return "error option" | Continue 'a

text \<open>Lines 131-138: save the new folder and count it.\<close>

definition saveFolder :: "env \<Rightarrow> folder \<Rightarrow> scan \<Rightarrow> folder step \<times> scan" where
  "saveFolder E f st =
     (case Folder_Save E f (db st) of
        (Inl e, w) \<Rightarrow> (Return (Some e), st\<lparr>db := w\<rparr>)
      | (Inr saved, w) \<Rightarrow> (Continue saved, st\<lparr>db := w, folderCount := folderCount st + 1\<rparr>))"

text \<open>Lines 97-138: the folder is not in the store; list it, find its parent, save it.\<close>

definition createFolder :: "env \<Rightarrow> path \<Rightarrow> fileInfo \<Rightarrow> folder \<Rightarrow> scan \<Rightarrow> folder step \<times> scan" where
  "createFolder E currPath info f st =
     (case sysCall (ReadDir (folder_Path f)) (readDir E (folder_Path f)) (db st) of
        (Inl e, w1) \<Rightarrow> (Return (Some e), st\<lparr>db := w1\<rparr>)
      | (Inr files, w1) \<Rightarrow>
          if length files = 0 then (Return None, st\<lparr>db := w1\<rparr>)
          else
            let f1 = f\<lparr>folder_Title := path_Base (folder_Path f)\<rparr>;
                pFolder = new_Folder\<lparr>folder_Path :=
                  (if info_IsDir info then path_Dir currPath else path_Dir (path_Dir currPath))\<rparr>
            in (case Folder_Load E (ParentFolderLoad (folder_Path pFolder)) pFolder w1 of
                  (Inl e, w2) \<Rightarrow>
                    if e \<noteq> ErrNoRows then (Return (Some e), st\<lparr>db := w2\<rparr>)
                    else saveFolder E (f1\<lparr>folder_ParentID := ID pFolder\<rparr>) (st\<lparr>db := w2\<rparr>)
                | (Inr p, w2) \<Rightarrow> saveFolder E (f1\<lparr>folder_ParentID := ID p\<rparr>) (st\<lparr>db := w2\<rparr>)))"

text \<open>Lines 83-139: the folder of the visited entry, from the cache, the store, or new.\<close>

definition resolveFolder :: "env \<Rightarrow> path \<Rightarrow> fileInfo \<Rightarrow> scan \<Rightarrow> folder step \<times> scan" where
  "resolveFolder E currPath info st =
     (let f = new_Folder\<lparr>folder_Path := (if info_IsDir info then currPath else path_Dir currPath)\<rparr>
      in case folderCache st (folder_Path f) of
           Some tempFolder \<Rightarrow> (Continue tempFolder, st)
         | None \<Rightarrow>
             (case Folder_Load E (FolderLoad (folder_Path f)) f (db st) of
                (Inr loaded, w1) \<Rightarrow> (Continue loaded, st\<lparr>db := w1\<rparr>)
              | (Inl e, w1) \<Rightarrow>
                  if e = ErrNoRows then createFolder E currPath info f (st\<lparr>db := w1\<rparr>)
                  else (Continue f, st\<lparr>db := w1\<rparr>)))"

text \<open>Lines 151-182: an art file.\<close>

definition visitArt :: "env \<Rightarrow> path \<Rightarrow> fileInfo \<Rightarrow> folder \<Rightarrow> scan \<Rightarrow> error option \<times> scan" where
  "visitArt E currPath info f st =
     (let a = new_Art\<lparr>art_FileName := currPath\<rparr>
      in case Art_Load E a (db st) of
           (Inr loaded, w1) \<Rightarrow> (None, st\<lparr>db := w1\<rparr>)
         | (Inl e, w1) \<Rightarrow>
             if e = ErrNoRows then
               (let a1 = a\<lparr>art_FileSize := info_Size info, art_LastModified := info_ModTime info\<rparr>
                in if art_FileSize a1 = 0 then (None, st\<lparr>db := w1\<rparr>)
                   else (case Art_Save E a1 w1 of
                           (Inl e2, w2) \<Rightarrow> (None, st\<lparr>db := w2\<rparr>)
                         | (Inr saved, w2) \<Rightarrow>
                             (None, st\<lparr>db := w2, artCount := artCount st + 1,
                                        artFiles := artFiles st @ [(ID f, ID saved)]\<rparr>)))
             else (None, st\<lparr>db := w1\<rparr>))"

text \<open>Lines 223-242: the artist of the song, from the cache, the store, or new.\<close>

definition resolveArtist :: "env \<Rightarrow> song \<Rightarrow> scan \<Rightarrow> artist \<times> scan" where
  "resolveArtist E s st =
     (let a = ArtistFromSong s;
          (a', st') =
            (case artistCache st (artist_Title a) of
               Some tempArtist \<Rightarrow> (tempArtist, st)
             | None \<Rightarrow>
                 (case Artist_Load E a (db st) of
                    (Inr loaded, w1) \<Rightarrow> (loaded, st\<lparr>db := w1\<rparr>)
                  | (Inl e, w1) \<Rightarrow>
                      if e = ErrNoRows then
                        (case Artist_Save E a w1 of
                           (Inl e2, w2) \<Rightarrow> (a, st\<lparr>db := w2\<rparr>)
                         | (Inr saved, w2) \<Rightarrow>
                             (saved, st\<lparr>db := w2, artistCount := artistCount st + 1\<rparr>))
                      else (a, st\<lparr>db := w1\<rparr>)))
      in (a', st'\<lparr>artistCache := (artistCache st')(artist_Title a' \<mapsto> a')\<rparr>))"

text \<open>
  Lines 244-267: the album of the song. The cache key of the source is
  \<open>strconv.Itoa(album.ArtistID) + "_" + album.Title\<close>; a decimal numeral has no
  underscore, so the key determines the pair (artist ID, title), which the model uses.
\<close>

definition resolveAlbum :: "env \<Rightarrow> song \<Rightarrow> artist \<Rightarrow> scan \<Rightarrow> album \<times> scan" where
  "resolveAlbum E s ar st =
     (let a = (AlbumFromSong s)\<lparr>album_ArtistID := ID ar\<rparr>;
          albumCacheKey = (album_ArtistID a, album_Title a);
          (a', st') =
            (case albumCache st albumCacheKey of
               Some tempAlbum \<Rightarrow> (tempAlbum, st)
             | None \<Rightarrow>
                 (case Album_Load E a (db st) of
                    (Inr loaded, w1) \<Rightarrow> (loaded, st\<lparr>db := w1\<rparr>)
                  | (Inl e, w1) \<Rightarrow>
                      if e = ErrNoRows then
                        (case Album_Save E a w1 of
                           (Inl e2, w2) \<Rightarrow> (a, st\<lparr>db := w2\<rparr>)
                         | (Inr saved, w2) \<Rightarrow>
                             (saved, st\<lparr>db := w2, albumCount := albumCount st + 1\<rparr>))
                      else (a, st\<lparr>db := w1\<rparr>)))
      in (a', st'\<lparr>albumCache := (albumCache st')(albumCacheKey \<mapsto> a')\<rparr>))"

text \<open>
  Lines 273-296: save the song when its path is not in the store; when the load gave
  anything else, compare the modification times and update. A load that failed with
  another error leaves \<open>song2\<close> with the zero time and the zero ID.
\<close>

definition resolveSong :: "env \<Rightarrow> song \<Rightarrow> scan \<Rightarrow> scan" where
  "resolveSong E s st =
     (let song2 = new_Song\<lparr>song_FileName := song_FileName s\<rparr>;
          (r, w1) = Song_Load E song2 (db st)
      in if r = Inl ErrNoRows then
           (case Song_Save E s w1 of
              (Inl e2, w2) \<Rightarrow> st\<lparr>db := w2\<rparr>
            | (Inr saved, w2) \<Rightarrow> st\<lparr>db := w2, songCount := songCount st + 1\<rparr>)
         else
           (let song2' = (case r of Inr loaded \<Rightarrow> loaded | Inl e \<Rightarrow> song2)
            in if song_LastModified s > song_LastModified song2' then
                 (case Song_Update E (SongUpdate (ID song2')) (s\<lparr>ID := ID song2'\<rparr>) w1 of
                    (r2, w2) \<Rightarrow> st\<lparr>db := w2, songUpdateCount := songUpdateCount st + 1\<rparr>)
               else st\<lparr>db := w1\<rparr>))"

text \<open>Lines 184-299: an audio file.\<close>

definition visitSong :: "env \<Rightarrow> path \<Rightarrow> fileInfo \<Rightarrow> folder \<Rightarrow> scan \<Rightarrow> error option \<times> scan" where
  "visitSong E currPath info f st =
     (case sysCall (TagRead currPath) (tagRead E currPath) (db st) of
        (Inl e, w1) \<Rightarrow> (Some (ErrTagRead currPath e), st\<lparr>db := w1\<rparr>)
      | (Inr file, w1) \<Rightarrow>
          (case sysCall (SongFromFile currPath) (songFromFile E file) w1 of
             (Inl e, w2) \<Rightarrow> (Some e, st\<lparr>db := w2\<rparr>)
           | (Inr s0, w2) \<Rightarrow>
               (let s1 = s0\<lparr>song_FileName := currPath, song_FileSize := info_Size info,
                            song_LastModified := info_ModTime info\<rparr>
                in if song_FileSize s1 = 0 then (None, st\<lparr>db := w2\<rparr>)
                   else
                     (let s2 = s1\<lparr>song_FolderID := ID f\<rparr>;
                          ext = name_Ext (info_Name info)
                      in case FileTypeMap E ext of
                           None \<Rightarrow> (Some (ErrInvalidFileType ext), st\<lparr>db := w2\<rparr>)
                         | Some fileType \<Rightarrow>
                             (let s3 = s2\<lparr>song_FileTypeID := fileType\<rparr>;
                                  (ar, st1) = resolveArtist E s3 (st\<lparr>db := w2\<rparr>);
                                  (al, st2) = resolveAlbum E s3 ar st1;
                                  s4 = s3\<lparr>song_ArtistID := ID ar, song_AlbumID := ID al\<rparr>
                              in (None, resolveSong E s4 st2))))))"

text \<open>
  Lines 70-300: the callback of \<open>filepath.Walk\<close>. \<open>halted\<close> is the value of \<open>haltWalk\<close>
  that this invocation reads under the lock.
\<close>

definition walkFn :: "env \<Rightarrow> bool \<Rightarrow> path \<times> fileInfo option \<Rightarrow> scan \<Rightarrow> error option \<times> scan" where
  "walkFn E halted entry st =
     (case entry of (currPath, oinfo) \<Rightarrow>
        if halted then (Some ErrHalted, st)
        else (case oinfo of
                None \<Rightarrow> (Some (ErrInvalidPath currPath), st)
              | Some info \<Rightarrow>
                  (case resolveFolder E currPath info st of
                     (Return r, st1) \<Rightarrow> (r, st1)
                   | (Continue f, st1) \<Rightarrow>
                       (let st2 = st1\<lparr>folderCache := (folderCache st1)(folder_Path f \<mapsto> f)\<rparr>;
                            ext = path_Ext currPath
                        in if ext \<notin> mediaSet E \<and> ext \<notin> artSet E then (None, st2)
                           else if ext \<in> artSet E then visitArt E currPath info f st2
                           else visitSong E currPath info f st2))))"

text \<open>
  \<open>filepath.Walk\<close> calls the callback on each entry it visits, in order, and stops at
  the first error the callback returns (the callback never returns \<open>filepath.SkipDir\<close>).
  \<open>haltWalk k\<close> is the value of the flag read by the invocation number \<open>k\<close>.
\<close>

fun walkEntries ::
  "env \<Rightarrow> (nat \<Rightarrow> bool) \<Rightarrow> nat \<Rightarrow> (path \<times> fileInfo option) list \<Rightarrow> scan \<Rightarrow> error option \<times> scan"
  where
  "walkEntries E haltWalk k [] st = (None, st)"
| "walkEntries E haltWalk k (entry # entries) st =
     (case walkFn E (haltWalk k) entry st of
        (Some e, st') \<Rightarrow> (Some e, st')
      | (None, st') \<Rightarrow> walkEntries E haltWalk (Suc k) entries st')"

text \<open>Lines 316-321: point every song of the list at the art and update it.\<close>

fun updateSongsArt :: "env \<Rightarrow> nat \<Rightarrow> song list \<Rightarrow> world \<Rightarrow> error option \<times> world" where
  "updateSongsArt E artID [] w = (None, w)"
| "updateSongsArt E artID (s # songs) w =
     (case Song_Update E (ArtSongUpdate (ID s)) (s\<lparr>song_ArtID := artID\<rparr>) w of
        (Inl e, w') \<Rightarrow> (Some e, w')
      | (Inr u, w') \<Rightarrow> updateSongsArt E artID songs w')"

text \<open>Lines 307-322: the deferred pass over the new folder/art ID pairs.\<close>

fun artPass :: "env \<Rightarrow> (nat \<times> nat) list \<Rightarrow> world \<Rightarrow> error option \<times> world" where
  "artPass E [] w = (None, w)"
| "artPass E (a # pairs) w =
     (case DB_SongsForFolder E (fst a) w of
        (Inl e, w1) \<Rightarrow> (Some e, w1)
      | (Inr songs, w1) \<Rightarrow>
          (case updateSongsArt E (snd a) songs w1 of
             (Some e, w2) \<Rightarrow> (Some e, w2)
           | (None, w2) \<Rightarrow> artPass E pairs w2))"

definition changeSum :: "scan \<Rightarrow> nat" where
  "changeSum st =
     artCount st + artistCount st + albumCount st + songCount st + folderCount st
       + songUpdateCount st"

text \<open>
  \<open>MediaScan\<close>: \<open>Inl e\<close> is the Go result \<open>(0, e)\<close> and \<open>Inr n\<close> is \<open>(n, nil)\<close>; the world
  is returned beside it, as the store is left. The flag \<open>verbose\<close> only selects what is
  printed to the process log and is left out.
\<close>

definition MediaScan :: "env \<Rightarrow> path \<Rightarrow> (nat \<Rightarrow> bool) \<Rightarrow> world \<Rightarrow> (error + nat) \<times> world" where
  "MediaScan E mediaFolder haltWalk w =
     (case walkEntries E haltWalk 0 (walk E mediaFolder) (newScan w) of
        (Some e, st) \<Rightarrow> (Inl e, db st)
      | (None, st) \<Rightarrow>
          (case artPass E (artFiles st) (db st) of
             (Some e, w') \<Rightarrow> (Inl e, w')
           | (None, w') \<Rightarrow> (Inr (changeSum st), w')))"

section \<open>OrphanScan\<close>

text \<open>
  Modelled from the spec: the bulk queries and the deletions of package \<open>data\<close> are not
  among the sources. A path falls under a base path when the base path's elements are
  its first elements (every path falls under the empty base path). The not-in-path
  queries return the records whose path does not fall under the given path, the in-path
  queries those whose path does; the purges delete every Album with no song and every
  Artist with no album, and return how many they deleted.
\<close>

definition inPath :: "path \<Rightarrow> path \<Rightarrow> bool" where
  "inPath base p = (take (length base) p = base)"

definition DB_ArtNotInPath :: "env \<Rightarrow> path \<Rightarrow> world \<Rightarrow> (error + art list) \<times> world" where
  "DB_ArtNotInPath E base =
     storeCall E (ArtNotInPath base)
       (\<lambda>w. (Inr (filter (\<lambda>a. \<not> inPath base (art_FileName a)) (rows (Arts w))), w))"

definition DB_SongsNotInPath :: "env \<Rightarrow> path \<Rightarrow> world \<Rightarrow> (error + song list) \<times> world" where
  "DB_SongsNotInPath E base =
     storeCall E (SongsNotInPath base)
       (\<lambda>w. (Inr (filter (\<lambda>s. \<not> inPath base (song_FileName s)) (rows (Songs w))), w))"

definition DB_FoldersNotInPath :: "env \<Rightarrow> path \<Rightarrow> world \<Rightarrow> (error + folder list) \<times> world" where
  "DB_FoldersNotInPath E base =
     storeCall E (FoldersNotInPath base)
       (\<lambda>w. (Inr (filter (\<lambda>f. \<not> inPath base (folder_Path f)) (rows (Folders w))), w))"

definition DB_ArtInPath :: "env \<Rightarrow> path \<Rightarrow> world \<Rightarrow> (error + art list) \<times> world" where
  "DB_ArtInPath E base =
     storeCall E (ArtInPath base)
       (\<lambda>w. (Inr (filter (\<lambda>a. inPath base (art_FileName a)) (rows (Arts w))), w))"

definition DB_SongsInPath :: "env \<Rightarrow> path \<Rightarrow> world \<Rightarrow> (error + song list) \<times> world" where
  "DB_SongsInPath E base =
     storeCall E (SongsInPath base)
       (\<lambda>w. (Inr (filter (\<lambda>s. inPath base (song_FileName s)) (rows (Songs w))), w))"

definition DB_FoldersInPath :: "env \<Rightarrow> path \<Rightarrow> world \<Rightarrow> (error + folder list) \<times> world" where
  "DB_FoldersInPath E base =
     storeCall E (FoldersInPath base)
       (\<lambda>w. (Inr (filter (\<lambda>f. inPath base (folder_Path f)) (rows (Folders w))), w))"

definition Art_Delete :: "env \<Rightarrow> art \<Rightarrow> world \<Rightarrow> (error + unit) \<times> world" where
  "Art_Delete E a =
     storeCall E (ArtDelete (ID a)) (\<lambda>w. (Inr (), w\<lparr>Arts := tbl_delete (ID a) (Arts w)\<rparr>))"

definition Song_Delete :: "env \<Rightarrow> song \<Rightarrow> world \<Rightarrow> (error + unit) \<times> world" where
  "Song_Delete E s =
     storeCall E (SongDelete (ID s)) (\<lambda>w. (Inr (), w\<lparr>Songs := tbl_delete (ID s) (Songs w)\<rparr>))"

definition Folder_Delete :: "env \<Rightarrow> folder \<Rightarrow> world \<Rightarrow> (error + unit) \<times> world" where
  "Folder_Delete E f =
     storeCall E (FolderDelete (ID f)) (\<lambda>w. (Inr (), w\<lparr>Folders := tbl_delete (ID f) (Folders w)\<rparr>))"

definition orphanAlbums :: "world \<Rightarrow> album list" where
  "orphanAlbums w =
     filter (\<lambda>a. \<not> list_ex (\<lambda>s. song_AlbumID s = ID a) (rows (Songs w))) (rows (Albums w))"

definition orphanArtists :: "world \<Rightarrow> artist list" where
  "orphanArtists w =
     filter (\<lambda>a. \<not> list_ex (\<lambda>b. album_ArtistID b = ID a) (rows (Albums w))) (rows (Artists w))"

definition DB_PurgeOrphanAlbums :: "env \<Rightarrow> world \<Rightarrow> (error + nat) \<times> world" where
  "DB_PurgeOrphanAlbums E =
     storeCall E PurgeOrphanAlbums
       (\<lambda>w. (Inr (length (orphanAlbums w)),
              w\<lparr>Albums := fold (\<lambda>a. tbl_delete (ID a)) (orphanAlbums w) (Albums w)\<rparr>))"

definition DB_PurgeOrphanArtists :: "env \<Rightarrow> world \<Rightarrow> (error + nat) \<times> world" where
  "DB_PurgeOrphanArtists E =
     storeCall E PurgeOrphanArtists
       (\<lambda>w. (Inr (length (orphanArtists w)),
              w\<lparr>Artists := fold (\<lambda>a. tbl_delete (ID a)) (orphanArtists w) (Artists w)\<rparr>))"

text \<open>The local variables of \<open>OrphanScan\<close>: the store and the three counters of its loops.\<close>

record orphan =
  odb :: world
  o_artCount :: nat
  o_folderCount :: nat
  o_songCount :: nat

definition newOrphan :: "world \<Rightarrow> orphan" where
  "newOrphan w = \<lparr>odb = w, o_artCount = 0, o_folderCount = 0, o_songCount = 0\<rparr>"

definition countArt :: "orphan \<Rightarrow> orphan" where
  "countArt st = st\<lparr>o_artCount := o_artCount st + 1\<rparr>"

definition countSong :: "orphan \<Rightarrow> orphan" where
  "countSong st = st\<lparr>o_songCount := o_songCount st + 1\<rparr>"

definition countFolder :: "orphan \<Rightarrow> orphan" where
  "countFolder st = st\<lparr>o_folderCount := o_folderCount st + 1\<rparr>"

text \<open>
  Lines 374-382, 392-400 and 410-418: delete every record of the list, counting each;
  the first deletion that fails ends the scan.
\<close>

fun deleteEach ::
  "('r \<Rightarrow> world \<Rightarrow> (error + unit) \<times> world) \<Rightarrow> (orphan \<Rightarrow> orphan) \<Rightarrow> 'r list \<Rightarrow> orphan
     \<Rightarrow> error option \<times> orphan" where
  "deleteEach del count [] st = (None, st)"
| "deleteEach del count (x # xs) st =
     (case del x (odb st) of
        (Inl e, w) \<Rightarrow> (Some e, st\<lparr>odb := w\<rparr>)
      | (Inr u, w) \<Rightarrow> deleteEach del count xs (count (st\<lparr>odb := w\<rparr>)))"

text \<open>Lines 360-419: with a base folder, remove everything that is not under it.\<close>

definition evictBase :: "env \<Rightarrow> path \<Rightarrow> orphan \<Rightarrow> error option \<times> orphan" where
  "evictBase E baseFolder st =
     (if baseFolder \<noteq> [] then
        (case DB_ArtNotInPath E baseFolder (odb st) of
           (Inl e, w1) \<Rightarrow> (Some e, st\<lparr>odb := w1\<rparr>)
         | (Inr arts, w1) \<Rightarrow>
        (case deleteEach (Art_Delete E) countArt arts (st\<lparr>odb := w1\<rparr>) of
           (Some e, st1) \<Rightarrow> (Some e, st1)
         | (None, st1) \<Rightarrow>
        (case DB_SongsNotInPath E baseFolder (odb st1) of
           (Inl e, w2) \<Rightarrow> (Some e, st1\<lparr>odb := w2\<rparr>)
         | (Inr songs, w2) \<Rightarrow>
        (case deleteEach (Song_Delete E) countSong songs (st1\<lparr>odb := w2\<rparr>) of
           (Some e, st2) \<Rightarrow> (Some e, st2)
         | (None, st2) \<Rightarrow>
        (case DB_FoldersNotInPath E baseFolder (odb st2) of
           (Inl e, w3) \<Rightarrow> (Some e, st2\<lparr>odb := w3\<rparr>)
         | (Inr folders, w3) \<Rightarrow>
             deleteEach (Folder_Delete E) countFolder folders (st2\<lparr>odb := w3\<rparr>))))))
      else (None, st))"

text \<open>
  Lines 440-451 and 461-472: delete every record of the list whose file \<open>os.Stat\<close>
  reports as not existing.
\<close>

fun deleteMissing ::
  "env \<Rightarrow> ('r \<Rightarrow> path) \<Rightarrow> ('r \<Rightarrow> world \<Rightarrow> (error + unit) \<times> world) \<Rightarrow> (orphan \<Rightarrow> orphan)
     \<Rightarrow> 'r list \<Rightarrow> orphan \<Rightarrow> error option \<times> orphan" where
  "deleteMissing E fileName del count [] st = (None, st)"
| "deleteMissing E fileName del count (x # xs) st =
     (case sysCall (Stat (fileName x)) (stat E (fileName x)) (odb st) of
        (r, w1) \<Rightarrow>
          if os_IsNotExist (errOf r) then
            (case del x w1 of
               (Inl e, w2) \<Rightarrow> (Some e, st\<lparr>odb := w2\<rparr>)
             | (Inr u, w2) \<Rightarrow> deleteMissing E fileName del count xs (count (st\<lparr>odb := w2\<rparr>)))
          else deleteMissing E fileName del count xs (st\<lparr>odb := w1\<rparr>))"

text \<open>
  Lines 481-498: delete every folder of the list that has no items; a listing that fails
  because the folder does not exist has no items, any other failure ends the scan.
\<close>

fun deleteEmptyFolders :: "env \<Rightarrow> folder list \<Rightarrow> orphan \<Rightarrow> error option \<times> orphan" where
  "deleteEmptyFolders E [] st = (None, st)"
| "deleteEmptyFolders E (f # fs) st =
     (case sysCall (ReadDir (folder_Path f)) (readDir E (folder_Path f)) (odb st) of
        (r, w1) \<Rightarrow>
          if errOf r \<noteq> None \<and> \<not> os_IsNotExist (errOf r) then (errOf r, st\<lparr>odb := w1\<rparr>)
          else if length (case r of Inr files \<Rightarrow> files | Inl e \<Rightarrow> []) = 0 then
            (case Folder_Delete E f w1 of
               (Inl e, w2) \<Rightarrow> (Some e, st\<lparr>odb := w2\<rparr>)
             | (Inr u, w2) \<Rightarrow> deleteEmptyFolders E fs (countFolder (st\<lparr>odb := w2\<rparr>)))
          else deleteEmptyFolders E fs (st\<lparr>odb := w1\<rparr>))"

text \<open>Lines 432-498: remove what is indexed under the subfolder and gone from the disk.\<close>

definition verifySub :: "env \<Rightarrow> path \<Rightarrow> orphan \<Rightarrow> error option \<times> orphan" where
  "verifySub E subFolder st =
     (case DB_ArtInPath E subFolder (odb st) of
        (Inl e, w1) \<Rightarrow> (Some e, st\<lparr>odb := w1\<rparr>)
      | (Inr arts, w1) \<Rightarrow>
     (case deleteMissing E art_FileName (Art_Delete E) countArt arts (st\<lparr>odb := w1\<rparr>) of
        (Some e, st1) \<Rightarrow> (Some e, st1)
      | (None, st1) \<Rightarrow>
     (case DB_SongsInPath E subFolder (odb st1) of
        (Inl e, w2) \<Rightarrow> (Some e, st1\<lparr>odb := w2\<rparr>)
      | (Inr songs, w2) \<Rightarrow>
     (case deleteMissing E song_FileName (Song_Delete E) countSong songs (st1\<lparr>odb := w2\<rparr>) of
        (Some e, st2) \<Rightarrow> (Some e, st2)
      | (None, st2) \<Rightarrow>
     (case DB_FoldersInPath E subFolder (odb st2) of
        (Inl e, w3) \<Rightarrow> (Some e, st2\<lparr>odb := w3\<rparr>)
      | (Inr folders, w3) \<Rightarrow> deleteEmptyFolders E folders (st2\<lparr>odb := w3\<rparr>))))))"

text \<open>
  \<open>OrphanScan\<close>. \<open>haltOrphanScan k\<close> is the value the flag of the source has at step \<open>k\<close>;
  the source sets the flag in its goroutine and reads it nowhere, and so does the model.
  \<open>albums\<close> and \<open>artists\<close> are the counts \<open>albumCount\<close> and \<open>artistCount\<close> that the two
  purges return.
\<close>

definition OrphanScan ::
  "env \<Rightarrow> path \<Rightarrow> path \<Rightarrow> (nat \<Rightarrow> bool) \<Rightarrow> world \<Rightarrow> (error + nat) \<times> world" where
  "OrphanScan E baseFolder subFolder haltOrphanScan w =
     (case evictBase E baseFolder (newOrphan w) of
        (Some e, st) \<Rightarrow> (Inl e, odb st)
      | (None, st) \<Rightarrow>
     (case verifySub E (if subFolder = [] then baseFolder else subFolder) st of
        (Some e, st1) \<Rightarrow> (Inl e, odb st1)
      | (None, st1) \<Rightarrow>
     (case DB_PurgeOrphanAlbums E (odb st1) of
        (Inl e, w1) \<Rightarrow> (Inl e, w1)
      | (Inr albums, w1) \<Rightarrow>
     (case DB_PurgeOrphanArtists E w1 of
        (Inl e, w2) \<Rightarrow> (Inl e, w2)
      | (Inr artists, w2) \<Rightarrow>
          (Inr (o_artCount st1 + artists + albums + o_songCount st1 + o_folderCount st1),
           w2)))))"

section \<open>Example libraries\<close>

definition emptyWorld :: world where
  "emptyWorld = \<lparr>Folders = [], Artists = [], Albums = [], Songs = [], Arts = [], calls = []\<rparr>"

definition dirInfo :: "string \<Rightarrow> fileInfo" where
  "dirInfo n = \<lparr>info_Name = n, info_Size = 4096, info_ModTime = 50, info_IsDir = True\<rparr>"

definition regInfo :: "string \<Rightarrow> int \<Rightarrow> int \<Rightarrow> fileInfo" where
  "regInfo n sz mt = \<lparr>info_Name = n, info_Size = sz, info_ModTime = mt, info_IsDir = False\<rparr>"

definition songOfTags :: "tagFile \<Rightarrow> error + song" where
  "songOfTags t =
     Inr (new_Song\<lparr>song_Title := tag_Title t, song_Artist := tag_Artist t,
                   song_Album := tag_Album t, song_Year := tag_Year t\<rparr>)"

text \<open>An environment with no files at all, and a store that holds one art record
  outside \<open>/music\<close>.\<close>

definition quietEnv :: env where
  "quietEnv =
     \<lparr>walk = (\<lambda>r. []),
      readDir = (\<lambda>p. Inl ErrNotExist),
      stat = (\<lambda>p. Inl ErrNotExist),
      tagRead = (\<lambda>p. Inl (Failure ''taglib: invalid file'')),
      songFromFile = songOfTags,
      mediaSet = {''.mp3'', ''.flac''},
      artSet = {''.jpg'', ''.png''},
      FileTypeMap = [''.mp3'' \<mapsto> 1, ''.flac'' \<mapsto> 2],
      fault = (\<lambda>c. None)\<rparr>"

definition strayWorld :: world where
  "strayWorld =
     emptyWorld\<lparr>Arts := [Some \<lparr>ID = 1, art_FileName = [''old'', ''cover.jpg''],
                               art_FileSize = 9, art_LastModified = 5\<rparr>]\<rparr>"

text \<open>A library with no file: \<open>/music\<close> holds only the empty directory \<open>/music/a\<close>.\<close>

definition hollowEnv :: env where
  "hollowEnv =
     quietEnv\<lparr>walk := (\<lambda>r. if r = [''music'']
                         then [([''music''], Some (dirInfo ''music'')),
                               ([''music'', ''a''], Some (dirInfo ''a''))]
                         else []),
               readDir := (\<lambda>p. if p = [''music''] then Inr [''a'']
                                else if p = [''music'', ''a''] then Inr []
                                else Inl ErrNotExist)\<rparr>"

section \<open>Calls whose error ends a media scan\<close>

text \<open>
  \<open>abortsScan\<close> holds for a logged call that returned an error and is one of: a
  directory listing, a tag read, a song derivation, the load of a parent folder (unless
  it returned not-found), the save of a folder, the songs-for-folder query, a song update
  of the deferred art pass. \<open>surfacedAs\<close> is the error the scan returns for such a call:
  the call's own error, wrapped with the path for a tag read (line 188).
  \<open>raisedByScan\<close> holds for the errors the scan makes itself.
\<close>

definition abortsScan :: "call \<times> error option \<Rightarrow> bool" where
  "abortsScan c =
     (case snd c of
        None \<Rightarrow> False
      | Some e \<Rightarrow>
          (case fst c of
             ReadDir p \<Rightarrow> True
           | TagRead p \<Rightarrow> True
           | SongFromFile p \<Rightarrow> True
           | ParentFolderLoad p \<Rightarrow> e \<noteq> ErrNoRows
           | FolderSave p \<Rightarrow> True
           | SongsForFolder f \<Rightarrow> True
           | ArtSongUpdate i \<Rightarrow> True
           | _ \<Rightarrow> False))"

definition surfacedAs :: "call \<times> error option \<Rightarrow> error option" where
  "surfacedAs c =
     (case snd c of
        None \<Rightarrow> None
      | Some e \<Rightarrow> Some (case fst c of TagRead p \<Rightarrow> ErrTagRead p e | _ \<Rightarrow> e))"

definition quiet :: "(call \<times> error option) list \<Rightarrow> bool" where
  "quiet cs = list_all (\<lambda>c. \<not> abortsScan c) cs"

definition raisedByScan :: "error \<Rightarrow> bool" where
  "raisedByScan e =
     (case e of ErrHalted \<Rightarrow> True | ErrInvalidPath p \<Rightarrow> True | ErrInvalidFileType x \<Rightarrow> True
      | _ \<Rightarrow> False)"

definition logged :: "(call \<times> error option) list \<Rightarrow> error option \<Rightarrow> bool" where
  "logged cs r =
     (case r of
        None \<Rightarrow> quiet cs
      | Some e \<Rightarrow>
          (quiet cs \<and> raisedByScan e)
          \<or> (cs \<noteq> [] \<and> quiet (butlast cs) \<and> abortsScan (last cs) \<and> surfacedAs (last cs) = Some e))"

section \<open>More example libraries\<close>

text \<open>
  The library of the spec's example: \<open>/music/a\<close> holds \<open>cover.jpg\<close> and
  \<open>track1.mp3\<close>. \<open>brokenArtEnv\<close> is the same library on a store that fails the save
  of the art record; \<open>lockedEnv\<close> is the same library with every directory listing
  failing.
\<close>

definition albumTags :: tagFile where
  "albumTags = \<lparr>tag_Title = ''Track 1'', tag_Artist = ''ArtistA'', tag_Album = ''Album1'',
                 tag_Year = 2001\<rparr>"

definition libraryEnv :: env where
  "libraryEnv =
     quietEnv\<lparr>walk := (\<lambda>r. if r = [''music'']
                         then [([''music''], Some (dirInfo ''music'')),
                               ([''music'', ''a''], Some (dirInfo ''a'')),
                               ([''music'', ''a'', ''cover.jpg''], Some (regInfo ''cover.jpg'' 12000 70)),
                               ([''music'', ''a'', ''track1.mp3''], Some (regInfo ''track1.mp3'' 5000 60))]
                         else []),
               readDir := (\<lambda>p. if p = [''music''] then Inr [''a'']
                                else if p = [''music'', ''a''] then Inr [''cover.jpg'', ''track1.mp3'']
                                else Inl ErrNotExist),
               stat := (\<lambda>p. if p = [''music'', ''a'', ''cover.jpg''] then Inr (regInfo ''cover.jpg'' 12000 70)
                             else if p = [''music'', ''a'', ''track1.mp3''] then Inr (regInfo ''track1.mp3'' 5000 60)
                             else Inl ErrNotExist),
               tagRead := (\<lambda>p. if p = [''music'', ''a'', ''track1.mp3''] then Inr albumTags
                                else Inl (Failure ''taglib: invalid file''))\<rparr>"

definition brokenArtEnv :: env where
  "brokenArtEnv =
     libraryEnv\<lparr>fault := (\<lambda>c. if c = ArtSave [''music'', ''a'', ''cover.jpg'']
                                then Some (Failure ''disk full'') else None)\<rparr>"

definition lockedEnv :: env where
  "lockedEnv = libraryEnv\<lparr>readDir := (\<lambda>p. Inl (Failure ''permission denied''))\<rparr>"


text \<open>Between two worlds, no art, song or folder row has been added or changed.\<close>

definition onlyDeletes :: "world \<Rightarrow> world \<Rightarrow> bool" where
  "onlyDeletes w w' =
     (set (rows (Arts w')) \<subseteq> set (rows (Arts w))
      \<and> set (rows (Songs w')) \<subseteq> set (rows (Songs w))
      \<and> set (rows (Folders w')) \<subseteq> set (rows (Folders w)))"

text \<open>
  A store that indexes \<open>/music/a\<close> (one song, one cover) and, outside \<open>/music\<close>, the
  folder \<open>/old\<close> with a song and a cover, whose album and artist have no other song;
  \<open>sweptWorld\<close> is that store after \<open>OrphanScan\<close> with the base folder \<open>/music\<close>.
\<close>

definition outsideWorld :: world where
  "outsideWorld =
     emptyWorld\<lparr>
       Folders := [Some \<lparr>ID = 1, folder_ParentID = 0, folder_Title = ''old'', folder_Path = [''old'']\<rparr>,
                   Some \<lparr>ID = 2, folder_ParentID = 0, folder_Title = ''music'', folder_Path = [''music'']\<rparr>,
                   Some \<lparr>ID = 3, folder_ParentID = 2, folder_Title = ''a'', folder_Path = [''music'', ''a'']\<rparr>],
       Artists := [Some \<lparr>ID = 1, artist_Title = ''ArtistA''\<rparr>, Some \<lparr>ID = 2, artist_Title = ''Gone''\<rparr>],
       Albums := [Some \<lparr>ID = 1, album_Artist = ''ArtistA'', album_ArtistID = 1,
                        album_Title = ''Album1'', album_Year = 2001\<rparr>,
                  Some \<lparr>ID = 2, album_Artist = ''Gone'', album_ArtistID = 2,
                        album_Title = ''Lost'', album_Year = 1999\<rparr>],
       Songs := [Some \<lparr>ID = 1, song_Album = ''Lost'', song_AlbumID = 2, song_ArtID = 0,
                       song_Artist = ''Gone'', song_ArtistID = 2,
                       song_FileName = [''old'', ''x.mp3''], song_FileSize = 7, song_FileTypeID = 1,
                       song_FolderID = 1, song_LastModified = 3, song_Title = ''X'', song_Year = 1999\<rparr>,
                 Some \<lparr>ID = 2, song_Album = ''Album1'', song_AlbumID = 1, song_ArtID = 2,
                       song_Artist = ''ArtistA'', song_ArtistID = 1,
                       song_FileName = [''music'', ''a'', ''track1.mp3''], song_FileSize = 5000,
                       song_FileTypeID = 1, song_FolderID = 3, song_LastModified = 60,
                       song_Title = ''Track 1'', song_Year = 2001\<rparr>],
       Arts := [Some \<lparr>ID = 1, art_FileName = [''old'', ''cover.jpg''], art_FileSize = 9,
                      art_LastModified = 5\<rparr>,
                Some \<lparr>ID = 2, art_FileName = [''music'', ''a'', ''cover.jpg''], art_FileSize = 12000,
                      art_LastModified = 70\<rparr>]\<rparr>"

definition sweptWorld :: world where
  "sweptWorld =
     outsideWorld\<lparr>
       Folders := [None,
                   Some \<lparr>ID = 2, folder_ParentID = 0, folder_Title = ''music'', folder_Path = [''music'']\<rparr>,
                   Some \<lparr>ID = 3, folder_ParentID = 2, folder_Title = ''a'', folder_Path = [''music'', ''a'']\<rparr>],
       Artists := [Some \<lparr>ID = 1, artist_Title = ''ArtistA''\<rparr>, None],
       Albums := [Some \<lparr>ID = 1, album_Artist = ''ArtistA'', album_ArtistID = 1,
                        album_Title = ''Album1'', album_Year = 2001\<rparr>, None],
       Songs := [None,
                 Some \<lparr>ID = 2, song_Album = ''Album1'', song_AlbumID = 1, song_ArtID = 2,
                       song_Artist = ''ArtistA'', song_ArtistID = 1,
                       song_FileName = [''music'', ''a'', ''track1.mp3''], song_FileSize = 5000,
                       song_FileTypeID = 1, song_FolderID = 3, song_LastModified = 60,
                       song_Title = ''Track 1'', song_Year = 2001\<rparr>],
       Arts := [None,
                Some \<lparr>ID = 2, art_FileName = [''music'', ''a'', ''cover.jpg''], art_FileSize = 12000,
                      art_LastModified = 70\<rparr>],
       calls := [(ArtNotInPath [''music''], None), (ArtDelete 1, None),
                 (SongsNotInPath [''music''], None), (SongDelete 1, None),
                 (FoldersNotInPath [''music''], None), (FolderDelete 1, None),
                 (ArtInPath [''music''], None), (Stat [''music'', ''a'', ''cover.jpg''], None),
                 (SongsInPath [''music''], None), (Stat [''music'', ''a'', ''track1.mp3''], None),
                 (FoldersInPath [''music''], None), (ReadDir [''music''], None),
                 (ReadDir [''music'', ''a''], None), (PurgeOrphanAlbums, None),
                 (PurgeOrphanArtists, None)]\<rparr>"

text \<open>
  Every song and art row of the store has a positive file size; every entry of a walk
  has a file size that is not negative (as \<open>os.FileInfo.Size\<close> is for what a
  filesystem holds).
\<close>

definition sizesPositive :: "world \<Rightarrow> bool" where
  "sizesPositive w =
     (list_all (\<lambda>s. 0 < song_FileSize s) (rows (Songs w))
      \<and> list_all (\<lambda>a. 0 < art_FileSize a) (rows (Arts w)))"

definition sizesNonNegative :: "(path \<times> fileInfo option) list \<Rightarrow> bool" where
  "sizesNonNegative entries =
     list_all (\<lambda>e. case snd e of None \<Rightarrow> True | Some i \<Rightarrow> 0 \<le> info_Size i) entries"

text \<open>
  \<open>/music\<close> holds the one file \<open>empty.flac\<close>, of size zero: the tag library fails on it
  in \<open>zeroFileEnv\<close> and reads tags from it in \<open>taggedZeroEnv\<close>.
\<close>

definition zeroFileEnv :: env where
  "zeroFileEnv =
     quietEnv\<lparr>walk := (\<lambda>r. if r = [''music'']
                         then [([''music''], Some (dirInfo ''music'')),
                               ([''music'', ''empty.flac''], Some (regInfo ''empty.flac'' 0 60))]
                         else []),
               readDir := (\<lambda>p. if p = [''music''] then Inr [''empty.flac''] else Inl ErrNotExist)\<rparr>"

definition taggedZeroEnv :: env where
  "taggedZeroEnv = zeroFileEnv\<lparr>tagRead := (\<lambda>p. Inr albumTags)\<rparr>"




text \<open>
  The calls that save, update or delete a record; every other call only reads the store,
  the filesystem or the tags.
\<close>

definition isWrite :: "call \<Rightarrow> bool" where
  "isWrite c =
     (case c of
        FolderSave p \<Rightarrow> True | FolderDelete i \<Rightarrow> True
      | ArtSave p \<Rightarrow> True | ArtDelete i \<Rightarrow> True
      | ArtistSave t \<Rightarrow> True | AlbumSave i t \<Rightarrow> True
      | SongSave p \<Rightarrow> True | SongUpdate i \<Rightarrow> True | ArtSongUpdate i \<Rightarrow> True
      | SongDelete i \<Rightarrow> True
      | PurgeOrphanAlbums \<Rightarrow> True | PurgeOrphanArtists \<Rightarrow> True
      | _ \<Rightarrow> False)"

text \<open>
  The caches of a scan agree with the store: a cached folder, artist or album is the
  record that a load by the cache key returns.
\<close>

definition cacheOK :: "scan \<Rightarrow> bool" where
  "cacheOK st =
     ((\<forall>k f. folderCache st k = Some f \<longrightarrow>
          tbl_find (\<lambda>r. folder_Path r = k) (Folders (db st)) = Some f)
      \<and> (\<forall>t a. artistCache st t = Some a \<longrightarrow>
          tbl_find (\<lambda>r. artist_Title r = t) (Artists (db st)) = Some a)
      \<and> (\<forall>k al. albumCache st k = Some al \<longrightarrow>
          tbl_find (\<lambda>r. album_ArtistID r = fst k \<and> album_Title r = snd k) (Albums (db st)) = Some al))"

text \<open>
  The store already reflects the audio file \<open>p\<close> with the file information \<open>i\<close>: its
  tags can be read and, unless the file is empty, its type is known, its artist and its
  album are stored, and the song stored under the path is at least as recent as the file.
\<close>

definition songSettled :: "env \<Rightarrow> world \<Rightarrow> path \<Rightarrow> fileInfo \<Rightarrow> bool" where
  "songSettled E w p i =
     (case tagRead E p of
        Inl e \<Rightarrow> False
      | Inr tf \<Rightarrow>
     (case songFromFile E tf of
        Inl e \<Rightarrow> False
      | Inr s0 \<Rightarrow>
          info_Size i = 0
          \<or> (FileTypeMap E (name_Ext (info_Name i)) \<noteq> None
              \<and> (case tbl_find (\<lambda>r. artist_Title r = song_Artist s0) (Artists w) of
                    None \<Rightarrow> False
                  | Some ar \<Rightarrow>
                 (case tbl_find (\<lambda>r. album_ArtistID r = ID ar \<and> album_Title r = song_Album s0)
                         (Albums w) of
                    None \<Rightarrow> False
                  | Some al \<Rightarrow>
                 (case tbl_find (\<lambda>r. song_FileName r = p) (Songs w) of
                    None \<Rightarrow> False
                  | Some s \<Rightarrow> info_ModTime i \<le> song_LastModified s))))))"

text \<open>
  The folder of a visited entry (lines 86-92), and what it means that the store already
  reflects the entry: a folder that is not stored has an empty listing, and a stored
  folder's art file is stored or empty and its audio file is settled.
\<close>

definition folderOf :: "path \<times> fileInfo option \<Rightarrow> path" where
  "folderOf e =
     (case snd e of None \<Rightarrow> fst e
      | Some i \<Rightarrow> if info_IsDir i then fst e else path_Dir (fst e))"

definition settled :: "env \<Rightarrow> world \<Rightarrow> path \<times> fileInfo option \<Rightarrow> bool" where
  "settled E w e =
     (case snd e of
        None \<Rightarrow> False
      | Some i \<Rightarrow>
          (case tbl_find (\<lambda>r. folder_Path r = folderOf e) (Folders w) of
             None \<Rightarrow> readDir E (folderOf e) = Inr []
           | Some f \<Rightarrow>
               if path_Ext (fst e) \<notin> mediaSet E \<and> path_Ext (fst e) \<notin> artSet E then True
               else if path_Ext (fst e) \<in> artSet E
                 then tbl_find (\<lambda>r. art_FileName r = fst e) (Arts w) \<noteq> None \<or> info_Size i = 0
                 else songSettled E w (fst e) i))"

text \<open>
  How the store may change during a scan in which no call fails: what a load found it
  finds again (\<open>stable\<close>), a stored song may only become more recent (\<open>songsGrow\<close>), and
  a folder with an empty listing that is not stored stays so (\<open>keepsAbsent\<close>).
\<close>

definition stable :: "('a ident_scheme) table \<Rightarrow> ('a ident_scheme) table \<Rightarrow> bool" where
  "stable t t' = (\<forall>P x. tbl_find P t = Some x \<longrightarrow> tbl_find P t' = Some x)"

definition songsGrow :: "song table \<Rightarrow> song table \<Rightarrow> bool" where
  "songsGrow t t' =
     (\<forall>p s. tbl_find (\<lambda>r. song_FileName r = p) t = Some s \<longrightarrow>
        (\<exists>s'. tbl_find (\<lambda>r. song_FileName r = p) t' = Some s'
             \<and> song_LastModified s \<le> song_LastModified s'))"

definition keepsAbsent :: "env \<Rightarrow> folder table \<Rightarrow> folder table \<Rightarrow> bool" where
  "keepsAbsent E t t' =
     (\<forall>d. readDir E d = Inr [] \<longrightarrow> tbl_find (\<lambda>r. folder_Path r = d) t = None
        \<longrightarrow> tbl_find (\<lambda>r. folder_Path r = d) t' = None)"

definition grows :: "env \<Rightarrow> world \<Rightarrow> world \<Rightarrow> bool" where
  "grows E w w' =
     (stable (Folders w) (Folders w') \<and> keepsAbsent E (Folders w) (Folders w')
      \<and> stable (Artists w) (Artists w') \<and> stable (Albums w) (Albums w')
      \<and> stable (Arts w) (Arts w') \<and> songsGrow (Songs w) (Songs w'))"

text \<open>
  The second world is the first with more calls logged, none of them a write; and a scan
  state reached by such calls alone, with no pair collected and no counter moved.
\<close>

definition reads :: "world \<Rightarrow> world \<Rightarrow> bool" where
  "reads w w' =
     (\<exists>cs. w' = w\<lparr>calls := calls w @ cs\<rparr> \<and> list_all (\<lambda>c. \<not> isWrite (fst c)) cs)"

definition readOnly :: "scan \<Rightarrow> scan \<Rightarrow> bool" where
  "readOnly st st' =
     (reads (db st) (db st')
      \<and> artFiles st' = artFiles st \<and> artCount st' = artCount st
      \<and> artistCount st' = artistCount st \<and> albumCount st' = albumCount st
      \<and> songCount st' = songCount st \<and> songUpdateCount st' = songUpdateCount st
      \<and> folderCount st' = folderCount st)"

section \<open>Facts about tables\<close>

lemma rows_from_append:
  "rows_from n (t @ u) = rows_from n t @ rows_from (n + length t) u"
proof (induction t arbitrary: n)
  case Nil
  show ?case by simp
next
  case (Cons x t)
  show ?case by (cases x) (simp_all add: Cons.IH)
qed

lemma rows_insert:
  "rows (tbl_insert r t) = rows t @ [r\<lparr>ID := Suc (length t)\<rparr>]"
  by (simp add: rows_def tbl_insert_def rows_from_append)

lemma rows_from_ID:
  "r \<in> set (rows_from n t) \<Longrightarrow> n < ID r \<and> ID r \<le> n + length t"
proof (induction t arbitrary: n)
  case Nil
  then show ?case by simp
next
  case (Cons x t)
  then show ?case by (cases x) fastforce+
qed

lemma rows_from_distinct: "distinct (map ID (rows_from n t))"
proof (induction t arbitrary: n)
  case Nil
  show ?case by simp
next
  case (Cons x t)
  show ?case
  proof (cases x)
    case None
    then show ?thesis using Cons.IH by simp
  next
    case (Some r)
    have "Suc n \<notin> ID ` set (rows_from (Suc n) t)"
      using rows_from_ID [of _ "Suc n" t] by fastforce
    then show ?thesis using Some Cons.IH by simp
  qed
qed

lemma rows_distinct: "distinct (map ID (rows t))"
  by (simp add: rows_def rows_from_distinct)

lemma rows_from_nth:
  "r \<in> set (rows_from n t) \<longleftrightarrow>
     (\<exists>i r0. i < length t \<and> t ! i = Some r0 \<and> r = r0\<lparr>ID := Suc (n + i)\<rparr>)"
proof (induction t arbitrary: n)
  case Nil
  show ?case by simp
next
  case (Cons x t)
  have step: "(\<exists>i r0. i < length (x # t) \<and> (x # t) ! i = Some r0 \<and> r = r0\<lparr>ID := Suc (n + i)\<rparr>)
     \<longleftrightarrow> (\<exists>r0. x = Some r0 \<and> r = r0\<lparr>ID := Suc n\<rparr>)
        \<or> (\<exists>i r0. i < length t \<and> t ! i = Some r0 \<and> r = r0\<lparr>ID := Suc (Suc n + i)\<rparr>)"
    (is "?L \<longleftrightarrow> ?A \<or> ?B")
  proof
    assume ?L
    then obtain i r0 where h: "i < length (x # t)" "(x # t) ! i = Some r0" "r = r0\<lparr>ID := Suc (n + i)\<rparr>"
      by blast
    show "?A \<or> ?B"
    proof (cases i)
      case 0
      with h show ?thesis by simp
    next
      case (Suc j)
      with h have "j < length t \<and> t ! j = Some r0 \<and> r = r0\<lparr>ID := Suc (Suc n + j)\<rparr>" by simp
      then show ?thesis by blast
    qed
  next
    assume "?A \<or> ?B"
    then show ?L
    proof
      assume ?A
      then have "0 < length (x # t) \<and> (x # t) ! 0 = Some (the x) \<and> r = (the x)\<lparr>ID := Suc (n + 0)\<rparr>"
        by auto
      then show ?L by blast
    next
      assume ?B
      then obtain i r0 where "i < length t" "t ! i = Some r0" "r = r0\<lparr>ID := Suc (Suc n + i)\<rparr>"
        by blast
      then have "Suc i < length (x # t) \<and> (x # t) ! Suc i = Some r0 \<and> r = r0\<lparr>ID := Suc (n + Suc i)\<rparr>"
        by simp
      then show ?L by blast
    qed
  qed
  show ?case
    unfolding step by (cases x) (simp_all add: Cons.IH)
qed

lemma rows_from_delete:
  "i < length t \<Longrightarrow>
     rows_from n (t[i := None]) = filter (\<lambda>r. ID r \<noteq> Suc (n + i)) (rows_from n t)"
proof (induction t arbitrary: n i)
  case Nil
  then show ?case by simp
next
  case (Cons x t)
  have notin: "\<And>m. filter (\<lambda>r. ID r \<noteq> Suc n) (rows_from (Suc n) t) = rows_from (Suc n) t"
    using rows_from_ID [of _ "Suc n" t] by (intro filter_True) fastforce
  show ?case
  proof (cases i)
    case 0
    then show ?thesis using notin by (cases x) simp_all
  next
    case (Suc j)
    with Cons.prems have j: "j < length t" by simp
    show ?thesis using Suc Cons.IH [OF j, of "Suc n"] by (cases x) simp_all
  qed
qed

lemma rows_from_update:
  "i < length t \<Longrightarrow> t ! i \<noteq> None \<Longrightarrow>
     rows_from n (t[i := Some r]) =
       map (\<lambda>x. if ID x = Suc (n + i) then r\<lparr>ID := Suc (n + i)\<rparr> else x) (rows_from n t)"
proof (induction t arbitrary: n i)
  case Nil
  then show ?case by simp
next
  case (Cons x t)
  have notin: "\<And>y. map (\<lambda>x. if ID x = Suc n then y else x) (rows_from (Suc n) t)
      = rows_from (Suc n) t"
    using rows_from_ID [of _ "Suc n" t] by (intro map_idI) fastforce
  show ?case
  proof (cases i)
    case 0
    then show ?thesis using notin Cons.prems by (cases x) simp_all
  next
    case (Suc j)
    with Cons.prems have j: "j < length t" "t ! j \<noteq> None" by simp_all
    have ne: "\<And>y. Suc n \<noteq> Suc (Suc (n + j))" by simp
    show ?thesis using Suc Cons.IH [OF j, of "Suc n"] by (cases x) simp_all
  qed
qed

lemma rows_has: "tbl_has i t \<longleftrightarrow> i \<in> ID ` set (rows t)"
proof
  assume "tbl_has i t"
  then obtain r0 where "i - 1 < length t" "t ! (i - 1) = Some r0" "0 < i"
    by (auto simp: tbl_has_def)
  then have "r0\<lparr>ID := i\<rparr> \<in> set (rows t)"
    unfolding rows_def rows_from_nth by (intro exI [of _ "i - 1"] exI [of _ r0]) simp
  then show "i \<in> ID ` set (rows t)" by force
next
  assume "i \<in> ID ` set (rows t)"
  then obtain r where "r \<in> set (rows t)" "ID r = i" by blast
  then obtain j r0 where "j < length t" "t ! j = Some r0" "r = r0\<lparr>ID := Suc j\<rparr>"
    unfolding rows_def rows_from_nth by auto
  with \<open>ID r = i\<close> show "tbl_has i t" by (auto simp: tbl_has_def)
qed

lemma rows_delete: "rows (tbl_delete i t) = filter (\<lambda>r. ID r \<noteq> i) (rows t)"
proof (cases "tbl_has i t")
  case True
  then have "i - 1 < length t" "Suc (0 + (i - 1)) = i"
    by (auto simp: tbl_has_def)
  with True show ?thesis
    using rows_from_delete [of "i - 1" t 0]
    by (simp add: tbl_delete_def rows_def)
next
  case False
  then have "filter (\<lambda>r. ID r \<noteq> i) (rows t) = rows t"
    unfolding rows_has by (intro filter_True) blast
  with False show ?thesis by (simp add: tbl_delete_def)
qed

lemma rows_update:
  "rows (tbl_update r t) = map (\<lambda>x. if ID x = ID r then r else x) (rows t)"
proof (cases "tbl_has (ID r) t")
  case True
  then have "ID r - 1 < length t" "t ! (ID r - 1) \<noteq> None" "Suc (0 + (ID r - 1)) = ID r"
    by (auto simp: tbl_has_def)
  moreover have "r\<lparr>ID := ID r\<rparr> = r" by simp
  ultimately show ?thesis
    using True rows_from_update [where i = "ID r - 1" and t = t and r = r and n = 0]
    by (simp add: tbl_update_def rows_def)
next
  case False
  then have "map (\<lambda>x. if ID x = ID r then r else x) (rows t) = rows t"
    unfolding rows_has by (intro map_idI) (metis imageI)
  with False show ?thesis by (simp add: tbl_update_def)
qed

section \<open>What each block of the callback leaves alone\<close>

lemmas store_defs =
  storeCall_def sysCall_def logCall_def errOf_def found_def
  Folder_Load_def Folder_Save_def Art_Load_def Art_Save_def Artist_Load_def Artist_Save_def
  Album_Load_def Album_Save_def Song_Load_def Song_Save_def Song_Update_def DB_SongsForFolder_def

lemma resolveFolder_frame:
  assumes "resolveFolder E p i st = (x, st')"
  shows "Artists (db st') = Artists (db st) \<and> Albums (db st') = Albums (db st)
       \<and> Songs (db st') = Songs (db st) \<and> Arts (db st') = Arts (db st)
       \<and> folderCache st' = folderCache st \<and> artistCache st' = artistCache st
       \<and> albumCache st' = albumCache st \<and> artFiles st' = artFiles st
       \<and> artCount st' = artCount st \<and> artistCount st' = artistCount st
       \<and> albumCount st' = albumCount st \<and> songCount st' = songCount st
       \<and> songUpdateCount st' = songUpdateCount st"
  using assms
  by (auto simp: resolveFolder_def createFolder_def saveFolder_def store_defs Let_def
           split: option.splits sum.splits if_splits prod.splits)

lemma visitArt_frame:
  assumes "visitArt E p i f st = (x, st')"
  shows "Folders (db st') = Folders (db st) \<and> Artists (db st') = Artists (db st)
       \<and> Albums (db st') = Albums (db st) \<and> Songs (db st') = Songs (db st)
       \<and> folderCache st' = folderCache st \<and> artistCache st' = artistCache st
       \<and> albumCache st' = albumCache st
       \<and> artistCount st' = artistCount st \<and> folderCount st' = folderCount st
       \<and> albumCount st' = albumCount st \<and> songCount st' = songCount st
       \<and> songUpdateCount st' = songUpdateCount st \<and> x = None"
  using assms
  by (auto simp: visitArt_def store_defs Let_def
           split: option.splits sum.splits if_splits prod.splits)

lemma resolveArtist_frame:
  assumes "resolveArtist E s st = (x, st')"
  shows "Folders (db st') = Folders (db st) \<and> Arts (db st') = Arts (db st)
       \<and> Albums (db st') = Albums (db st) \<and> Songs (db st') = Songs (db st)
       \<and> folderCache st' = folderCache st
       \<and> albumCache st' = albumCache st \<and> artFiles st' = artFiles st
       \<and> artCount st' = artCount st \<and> folderCount st' = folderCount st
       \<and> albumCount st' = albumCount st \<and> songCount st' = songCount st
       \<and> songUpdateCount st' = songUpdateCount st"
  using assms
  by (auto simp: resolveArtist_def store_defs Let_def
           split: option.splits sum.splits if_splits prod.splits)

lemma resolveAlbum_frame:
  assumes "resolveAlbum E s ar st = (x, st')"
  shows "Folders (db st') = Folders (db st) \<and> Arts (db st') = Arts (db st)
       \<and> Artists (db st') = Artists (db st) \<and> Songs (db st') = Songs (db st)
       \<and> folderCache st' = folderCache st
       \<and> artistCache st' = artistCache st \<and> artFiles st' = artFiles st
       \<and> artCount st' = artCount st \<and> folderCount st' = folderCount st
       \<and> artistCount st' = artistCount st \<and> songCount st' = songCount st
       \<and> songUpdateCount st' = songUpdateCount st"
  using assms
  by (auto simp: resolveAlbum_def store_defs Let_def
           split: option.splits sum.splits if_splits prod.splits)

lemma resolveSong_frame:
  "Folders (db (resolveSong E s st)) = Folders (db st) \<and> Arts (db (resolveSong E s st)) = Arts (db st)
       \<and> Artists (db (resolveSong E s st)) = Artists (db st) \<and> Albums (db (resolveSong E s st)) = Albums (db st)
       \<and> folderCache (resolveSong E s st) = folderCache st
       \<and> artistCache (resolveSong E s st) = artistCache st
       \<and> albumCache (resolveSong E s st) = albumCache st \<and> artFiles (resolveSong E s st) = artFiles st
       \<and> artCount (resolveSong E s st) = artCount st \<and> folderCount (resolveSong E s st) = folderCount st
       \<and> artistCount (resolveSong E s st) = artistCount st \<and> albumCount (resolveSong E s st) = albumCount st"
  by (auto simp: resolveSong_def store_defs Let_def
           split: option.splits sum.splits if_splits prod.splits)

lemma visitSong_frame:
  assumes "visitSong E p i f st = (x, st')"
  shows "Folders (db st') = Folders (db st) \<and> Arts (db st') = Arts (db st)
       \<and> folderCache st' = folderCache st \<and> artFiles st' = artFiles st
       \<and> artCount st' = artCount st \<and> folderCount st' = folderCount st"
proof -
  show ?thesis
    using assms
    apply (simp add: visitSong_def sysCall_def logCall_def errOf_def Let_def
           split: option.splits sum.splits if_splits prod.splits)
    apply (auto dest!: resolveArtist_frame resolveAlbum_frame simp: resolveSong_frame)
    done
qed

section \<open>Empty directories\<close>

lemma find_append:
  "find P (xs @ ys) = (case find P xs of None \<Rightarrow> find P ys | Some x \<Rightarrow> Some x)"
  by (induction xs) simp_all

lemma tbl_find_insert:
  "tbl_find P (tbl_insert r t) =
     (case tbl_find P t of
        Some x \<Rightarrow> Some x
      | None \<Rightarrow> if P (r\<lparr>ID := Suc (length t)\<rparr>) then Some (r\<lparr>ID := Suc (length t)\<rparr>) else None)"
  by (simp add: tbl_find_def rows_insert find_append split: option.splits)

lemma resolveFolder_keeps_absent:
  assumes "readDir E d = Inr []"
      and "tbl_find (\<lambda>r. folder_Path r = d) (Folders (db st)) = None"
      and "resolveFolder E p i st = (x, st')"
  shows "tbl_find (\<lambda>r. folder_Path r = d) (Folders (db st')) = None"
  using assms
  by (auto simp: resolveFolder_def createFolder_def saveFolder_def store_defs Let_def
                 tbl_find_insert new_Folder_def
           split: option.splits sum.splits if_splits prod.splits)

lemma walkFn_Folders:
  assumes "walkFn E h e st = (r, st')"
  obtains x st1 where "resolveFolder E (fst e) (the (snd e)) st = (x, st1)"
      and "Folders (db st') = Folders (db st1)"
    | "Folders (db st') = Folders (db st)"
proof (cases "h \<or> snd e = None")
  case True
  then have "st' = st" using assms by (auto simp: walkFn_def split: prod.splits if_splits)
  then show ?thesis using that(2) by simp
next
  case False
  then obtain p i where e: "e = (p, Some i)" and h: "\<not> h" by (cases e) auto
  obtain x st1 where rf: "resolveFolder E p i st = (x, st1)" by (cases "resolveFolder E p i st")
  have "Folders (db st') = Folders (db st1)"
  proof (cases x)
    case (Return r')
    with assms e h rf show ?thesis by (simp add: walkFn_def)
  next
    case (Continue f)
    with assms e h rf show ?thesis
      by (auto simp: walkFn_def Let_def split: if_splits dest!: visitArt_frame visitSong_frame)
  qed
  with rf e show ?thesis using that(1) by simp
qed

lemma walkFn_keeps_absent:
  assumes "readDir E d = Inr []"
      and "tbl_find (\<lambda>r. folder_Path r = d) (Folders (db st)) = None"
      and "walkFn E h e st = (r, st')"
  shows "tbl_find (\<lambda>r. folder_Path r = d) (Folders (db st')) = None"
  using assms(3)
proof (cases rule: walkFn_Folders)
  case (1 x st1)
  with resolveFolder_keeps_absent [OF assms(1,2)] show ?thesis by simp
next
  case 2
  with assms(2) show ?thesis by simp
qed

lemma walkEntries_keeps_absent:
  assumes "readDir E d = Inr []"
  shows "tbl_find (\<lambda>r. folder_Path r = d) (Folders (db st)) = None \<Longrightarrow>
         walkEntries E h k es st = (r, st') \<Longrightarrow>
         tbl_find (\<lambda>r. folder_Path r = d) (Folders (db st')) = None"
proof (induction es arbitrary: k st)
  case Nil
  then show ?case by simp
next
  case (Cons e es)
  obtain r1 st1 where w: "walkFn E (h k) e st = (r1, st1)" by (cases "walkFn E (h k) e st")
  have a: "tbl_find (\<lambda>r. folder_Path r = d) (Folders (db st1)) = None"
    using walkFn_keeps_absent [OF assms Cons.prems(1) w] .
  show ?case
  proof (cases r1)
    case None
    with Cons.prems(2) w have "walkEntries E h (Suc k) es st1 = (r, st')" by simp
    from Cons.IH [OF a this] show ?thesis .
  next
    case (Some e1)
    with Cons.prems(2) w have "st' = st1" by simp
    with a show ?thesis by simp
  qed
qed

lemma updateSongsArt_frame:
  "updateSongsArt E a songs w = (r, w') \<Longrightarrow>
     Folders w' = Folders w \<and> Artists w' = Artists w \<and> Albums w' = Albums w \<and> Arts w' = Arts w"
proof (induction songs arbitrary: w)
  case Nil
  then show ?case by simp
next
  case (Cons s songs)
  obtain r1 w1 where u: "Song_Update E (ArtSongUpdate (ID s)) (s\<lparr>song_ArtID := a\<rparr>) w = (r1, w1)"
    by (cases "Song_Update E (ArtSongUpdate (ID s)) (s\<lparr>song_ArtID := a\<rparr>) w")
  then have f: "Folders w1 = Folders w \<and> Artists w1 = Artists w \<and> Albums w1 = Albums w \<and> Arts w1 = Arts w"
    by (auto simp: store_defs split: option.splits)
  show ?case
  proof (cases r1)
    case (Inl e)
    with Cons.prems u f show ?thesis by simp
  next
    case (Inr u')
    with Cons.prems u have "updateSongsArt E a songs w1 = (r, w')" by simp
    from Cons.IH [OF this] f show ?thesis by simp
  qed
qed

lemma artPass_frame:
  "artPass E pairs w = (r, w') \<Longrightarrow>
     Folders w' = Folders w \<and> Artists w' = Artists w \<and> Albums w' = Albums w \<and> Arts w' = Arts w"
proof (induction pairs arbitrary: w)
  case Nil
  then show ?case by simp
next
  case (Cons a pairs)
  obtain r1 w1 where q: "DB_SongsForFolder E (fst a) w = (r1, w1)"
    by (cases "DB_SongsForFolder E (fst a) w")
  then have f: "Folders w1 = Folders w \<and> Artists w1 = Artists w \<and> Albums w1 = Albums w \<and> Arts w1 = Arts w"
    by (auto simp: store_defs split: option.splits)
  show ?case
  proof (cases r1)
    case (Inl e)
    with Cons.prems q f show ?thesis by simp
  next
    case (Inr songs)
    obtain r2 w2 where u: "updateSongsArt E (snd a) songs w1 = (r2, w2)"
      by (cases "updateSongsArt E (snd a) songs w1")
    note f2 = updateSongsArt_frame [OF u]
    show ?thesis
    proof (cases r2)
      case None
      with Cons.prems q Inr u have "artPass E pairs w2 = (r, w')" by simp
      from Cons.IH [OF this] f f2 show ?thesis by simp
    next
      case (Some e)
      with Cons.prems q Inr u f f2 show ?thesis by simp
    qed
  qed
qed

lemma MediaScan_keeps_absent:
  assumes "readDir E d = Inr []"
      and "tbl_find (\<lambda>r. folder_Path r = d) (Folders w) = None"
  shows "tbl_find (\<lambda>r. folder_Path r = d) (Folders (snd (MediaScan E root h w))) = None"
proof -
  obtain r st where we: "walkEntries E h 0 (walk E root) (newScan w) = (r, st)"
    by (cases "walkEntries E h 0 (walk E root) (newScan w)")
  have "tbl_find (\<lambda>r. folder_Path r = d) (Folders (db (newScan w))) = None"
    using assms(2) by (simp add: newScan_def)
  from walkEntries_keeps_absent [OF assms(1) this we]
  have a: "tbl_find (\<lambda>r. folder_Path r = d) (Folders (db st)) = None" .
  show ?thesis
  proof (cases r)
    case (Some e)
    with we a show ?thesis by (simp add: MediaScan_def)
  next
    case None
    obtain r2 w2 where ap: "artPass E (artFiles st) (db st) = (r2, w2)"
      by (cases "artPass E (artFiles st) (db st)")
    with artPass_frame [OF ap] a have "tbl_find (\<lambda>r. folder_Path r = d) (Folders w2) = None" by simp
    with None we ap show ?thesis by (cases r2) (simp_all add: MediaScan_def)
  qed
qed

lemma walkFn_empty_directory:
  assumes "readDir E d = Inr []"
      and "info_IsDir info" and "folderCache st d = None" and "fault E (FolderLoad d) = None"
      and "tbl_find (\<lambda>r. folder_Path r = d) (Folders (db st)) = None"
  shows "walkFn E False (d, Some info) st =
     (None, st\<lparr>db := (db st)\<lparr>calls := calls (db st) @
                    [(FolderLoad d, Some ErrNoRows), (ReadDir d, None)]\<rparr>\<rparr>)"
  using assms
  by (simp add: walkFn_def resolveFolder_def createFolder_def store_defs new_Folder_def)

text \<open>
  C6 (amended). The claim also covers directories that are transitively empty; the
  source looks only at the directory's own listing (\<open>len(files) == 0\<close>, lines 98-107).
  For every directory \<open>d\<close> whose listing has zero entries and that has no Folder record
  yet: no \<open>MediaScan\<close>, whatever its root, its faults and its cancellation, creates a
  Folder record for \<open>d\<close>; and the visit of \<open>d\<close> (not halted, \<open>d\<close> not cached, the load
  not failed by the store) returns no error and changes nothing but the call log, so it
  creates no record and increments no counter.
\<close>

theorem empty_directory_gets_no_folder:
  assumes "readDir E d = Inr []"
      and "tbl_find (\<lambda>r. folder_Path r = d) (Folders w) = None"
  shows "tbl_find (\<lambda>r. folder_Path r = d) (Folders (snd (MediaScan E root haltWalk w))) = None
       \<and> (\<forall>st info. info_IsDir info \<and> folderCache st d = None \<and> fault E (FolderLoad d) = None
             \<and> tbl_find (\<lambda>r. folder_Path r = d) (Folders (db st)) = None
           \<longrightarrow> walkFn E False (d, Some info) st =
                 (None, st\<lparr>db := (db st)\<lparr>calls := calls (db st) @
                    [(FolderLoad d, Some ErrNoRows), (ReadDir d, None)]\<rparr>\<rparr>))"
  using MediaScan_keeps_absent [OF assms] walkFn_empty_directory [OF assms(1)] by blast

text \<open>
  Witness for C6: the empty directory \<open>/music/a\<close> of the library below \<open>/music\<close>.
\<close>

theorem empty_directory_gets_no_folder_witness:
  "readDir hollowEnv [''music'', ''a''] = Inr []
   \<and> tbl_find (\<lambda>r. folder_Path r = [''music'', ''a'']) (Folders emptyWorld) = None
   \<and> tbl_find (\<lambda>r. folder_Path r = [''music'', ''a''])
        (Folders (snd (MediaScan hollowEnv [''music''] (\<lambda>k. False) emptyWorld))) = None
   \<and> walkFn hollowEnv False ([''music'', ''a''], Some (dirInfo ''a'')) (newScan emptyWorld) =
        (None, (newScan emptyWorld)\<lparr>db := emptyWorld\<lparr>calls :=
            [(FolderLoad [''music'', ''a''], Some ErrNoRows), (ReadDir [''music'', ''a''], None)]\<rparr>\<rparr>)"
proof -
  have h1: "readDir hollowEnv [''music'', ''a''] = Inr []"
    by (simp add: hollowEnv_def)
  have h2: "tbl_find (\<lambda>r. folder_Path r = [''music'', ''a'']) (Folders emptyWorld) = None"
    by (simp add: emptyWorld_def tbl_find_def rows_def)
  have h3: "info_IsDir (dirInfo ''a'') \<and> folderCache (newScan emptyWorld) [''music'', ''a''] = None
      \<and> fault hollowEnv (FolderLoad [''music'', ''a'']) = None
      \<and> tbl_find (\<lambda>r. folder_Path r = [''music'', ''a'']) (Folders (db (newScan emptyWorld))) = None"
    by (simp add: dirInfo_def newScan_def hollowEnv_def quietEnv_def emptyWorld_def tbl_find_def rows_def)
  from empty_directory_gets_no_folder [OF h1 h2, of "[''music'']" "\<lambda>k. False"] h3
  have "tbl_find (\<lambda>r. folder_Path r = [''music'', ''a''])
          (Folders (snd (MediaScan hollowEnv [''music''] (\<lambda>k. False) emptyWorld))) = None
     \<and> walkFn hollowEnv False ([''music'', ''a''], Some (dirInfo ''a'')) (newScan emptyWorld) =
        (None, (newScan emptyWorld)\<lparr>db := (db (newScan emptyWorld))\<lparr>calls := calls (db (newScan emptyWorld)) @
            [(FolderLoad [''music'', ''a''], Some ErrNoRows), (ReadDir [''music'', ''a''], None)]\<rparr>\<rparr>)"
    by blast
  then show ?thesis using h1 h2 by (simp add: newScan_def emptyWorld_def)
qed

text \<open>
  Counterexample to C6 as stated: \<open>/music\<close> holds no file, only the empty directory
  \<open>/music/a\<close> (every entry of the walk is a directory), so it is transitively empty; yet
  \<open>MediaScan\<close> saves a Folder record for \<open>/music\<close> and counts it.
\<close>

theorem transitively_empty_directory_counterexample:
  "list_all (\<lambda>e. case snd e of Some i \<Rightarrow> info_IsDir i | None \<Rightarrow> False) (walk hollowEnv [''music''])
   \<and> MediaScan hollowEnv [''music''] (\<lambda>k. False) emptyWorld =
       (Inr 1,
        emptyWorld\<lparr>Folders := [Some \<lparr>ID = 1, folder_ParentID = 0, folder_Title = ''music'',
                                      folder_Path = [''music'']\<rparr>],
          calls := [(FolderLoad [''music''], Some ErrNoRows), (ReadDir [''music''], None),
                    (ParentFolderLoad [], Some ErrNoRows), (FolderSave [''music''], None),
                    (FolderLoad [''music'', ''a''], Some ErrNoRows),
                    (ReadDir [''music'', ''a''], None)]\<rparr>)"
  by code_simp

section \<open>Which errors end the scan\<close>

lemma quiet_simps:
  "quiet []" "quiet (c # cs) \<longleftrightarrow> \<not> abortsScan c \<and> quiet cs"
  "quiet (cs @ ds) \<longleftrightarrow> quiet cs \<and> quiet ds"
  by (simp_all add: quiet_def)

lemma logged_append:
  "quiet cs \<Longrightarrow> logged ds r \<Longrightarrow> logged (cs @ ds) r"
  by (cases r) (auto simp: logged_def quiet_simps butlast_append)

lemma logged_None: "logged cs None \<longleftrightarrow> quiet cs"
  by (simp add: logged_def)

lemma resolveFolder_logged:
  assumes "resolveFolder E p i st = (x, st')"
  shows "\<exists>cs. calls (db st') = calls (db st) @ cs
           \<and> (case x of Return r \<Rightarrow> logged cs r | Continue f \<Rightarrow> quiet cs)"
  using assms
  by (auto simp: resolveFolder_def createFolder_def saveFolder_def store_defs Let_def
                 logged_def quiet_simps abortsScan_def surfacedAs_def
           split: option.splits sum.splits if_splits prod.splits)

lemma visitArt_logged:
  assumes "visitArt E p i f st = (x, st')"
  shows "\<exists>cs. calls (db st') = calls (db st) @ cs \<and> quiet cs"
  using assms
  by (auto simp: visitArt_def store_defs Let_def quiet_simps abortsScan_def
           split: option.splits sum.splits if_splits prod.splits)

lemma resolveArtist_logged:
  assumes "resolveArtist E s st = (x, st')"
  shows "\<exists>cs. calls (db st') = calls (db st) @ cs \<and> quiet cs"
  using assms
  by (auto simp: resolveArtist_def store_defs Let_def quiet_simps abortsScan_def
           split: option.splits sum.splits if_splits prod.splits)

lemma resolveAlbum_logged:
  assumes "resolveAlbum E s ar st = (x, st')"
  shows "\<exists>cs. calls (db st') = calls (db st) @ cs \<and> quiet cs"
  using assms
  by (auto simp: resolveAlbum_def store_defs Let_def quiet_simps abortsScan_def
           split: option.splits sum.splits if_splits prod.splits)

lemma resolveSong_logged:
  "\<exists>cs. calls (db (resolveSong E s st)) = calls (db st) @ cs \<and> quiet cs"
  by (auto simp: resolveSong_def store_defs Let_def quiet_simps abortsScan_def
           split: option.splits sum.splits if_splits prod.splits)

lemma visitSong_logged:
  assumes "visitSong E p i f st = (r, st')"
  shows "\<exists>cs. calls (db st') = calls (db st) @ cs \<and> logged cs r"
proof (cases "tagRead E p")
  case (Inl e)
  with assms show ?thesis
    by (auto simp: visitSong_def store_defs logged_def quiet_simps abortsScan_def surfacedAs_def)
next
  case (Inr tf)
  note tr = this
  show ?thesis
  proof (cases "songFromFile E tf")
    case (Inl e)
    with assms tr show ?thesis
      by (auto simp: visitSong_def store_defs logged_def quiet_simps abortsScan_def surfacedAs_def)
  next
    case (Inr s0)
    let ?w2 = "logCall (SongFromFile p) None (logCall (TagRead p) None (db st))"
    have c2: "calls ?w2 = calls (db st) @ [(TagRead p, None), (SongFromFile p, None)]"
      by (simp add: logCall_def)
    have q2: "quiet [(TagRead p, None), (SongFromFile p, None)]"
      by (simp add: quiet_simps abortsScan_def)
    show ?thesis
    proof (cases "info_Size i = 0")
      case True
      with assms tr Inr c2 q2 show ?thesis
        by (auto simp: visitSong_def sysCall_def errOf_def logged_def)
    next
      case False
      note sz = this
      show ?thesis
      proof (cases "FileTypeMap E (name_Ext (info_Name i))")
        case None
        with assms tr Inr c2 q2 sz show ?thesis
          by (auto simp: visitSong_def sysCall_def errOf_def logged_def raisedByScan_def)
      next
        case (Some ft)
        let ?s3 = "s0\<lparr>song_FileName := p, song_FileSize := info_Size i,
                       song_LastModified := info_ModTime i, song_FolderID := ID f,
                       song_FileTypeID := ft\<rparr>"
        obtain ar st1 where ra: "resolveArtist E ?s3 (st\<lparr>db := ?w2\<rparr>) = (ar, st1)"
          by (cases "resolveArtist E ?s3 (st\<lparr>db := ?w2\<rparr>)")
        obtain al st2 where rb: "resolveAlbum E ?s3 ar st1 = (al, st2)"
          by (cases "resolveAlbum E ?s3 ar st1")
        let ?s4 = "?s3\<lparr>song_ArtistID := ID ar, song_AlbumID := ID al\<rparr>"
        have res: "r = None" "st' = resolveSong E ?s4 st2"
          using assms tr Inr sz Some ra rb
          by (simp_all add: visitSong_def sysCall_def errOf_def Let_def)
        from resolveArtist_logged [OF ra] obtain cs1 where
          a1: "calls (db st1) = calls ?w2 @ cs1" "quiet cs1" by auto
        from resolveAlbum_logged [OF rb] obtain cs2 where
          a2: "calls (db st2) = calls (db st1) @ cs2" "quiet cs2" by blast
        from resolveSong_logged [of E ?s4 st2] obtain cs3 where
          a3: "calls (db (resolveSong E ?s4 st2)) = calls (db st2) @ cs3" "quiet cs3" by blast
        have "calls (db st') = calls (db st) @ ([(TagRead p, None), (SongFromFile p, None)] @ cs1 @ cs2 @ cs3)"
          using res a1 a2 a3 c2 by simp
        moreover have "logged ([(TagRead p, None), (SongFromFile p, None)] @ cs1 @ cs2 @ cs3) r"
          using q2 a1 a2 a3 res by (simp add: quiet_simps logged_None)
        ultimately show ?thesis by blast
      qed
    qed
  qed
qed

lemma walkFn_logged:
  assumes "walkFn E h e st = (r, st')"
  shows "\<exists>cs. calls (db st') = calls (db st) @ cs \<and> logged cs r"
proof (cases "h \<or> snd e = None")
  case True
  then have "st' = st \<and> (\<exists>e'. r = Some e' \<and> raisedByScan e')"
    using assms by (auto simp: walkFn_def raisedByScan_def split: prod.splits if_splits)
  then have "calls (db st') = calls (db st) @ [] \<and> logged [] r"
    by (auto simp: logged_def quiet_simps)
  then show ?thesis by blast
next
  case False
  then obtain p i where e: "e = (p, Some i)" and h: "\<not> h" by (cases e) auto
  obtain x st1 where rf: "resolveFolder E p i st = (x, st1)" by (cases "resolveFolder E p i st")
  from resolveFolder_logged [OF rf] obtain cs1 where
    c1: "calls (db st1) = calls (db st) @ cs1"
        "case x of Return r \<Rightarrow> logged cs1 r | Continue f \<Rightarrow> quiet cs1" by blast
  show ?thesis
  proof (cases x)
    case (Return r')
    with assms e h rf have "r = r'" "st' = st1" by (simp_all add: walkFn_def)
    with c1 Return show ?thesis by auto
  next
    case (Continue f)
    let ?st2 = "st1\<lparr>folderCache := (folderCache st1)(folder_Path f \<mapsto> f)\<rparr>"
    have q1: "quiet cs1" using c1 Continue by simp
    have unf: "walkFn E h e st =
        (if path_Ext p \<notin> mediaSet E \<and> path_Ext p \<notin> artSet E then (None, ?st2)
         else if path_Ext p \<in> artSet E then visitArt E p i f ?st2
         else visitSong E p i f ?st2)"
      using e h rf Continue by (simp add: walkFn_def Let_def)
    consider (skip) "r = None" "st' = ?st2"
      | (art) "visitArt E p i f ?st2 = (r, st')"
      | (song) "visitSong E p i f ?st2 = (r, st')"
    proof (cases "path_Ext p \<notin> mediaSet E \<and> path_Ext p \<notin> artSet E")
      case True
      with unf assms have "r = None" "st' = ?st2" by simp_all
      then show ?thesis using that(1) by blast
    next
      case False
      show ?thesis
      proof (cases "path_Ext p \<in> artSet E")
        case True
        with unf assms have "visitArt E p i f ?st2 = (r, st')" by simp
        then show ?thesis using that(2) by blast
      next
        case no: False
        with False unf assms have "visitSong E p i f ?st2 = (r, st')" by simp
        then show ?thesis using that(3) by blast
      qed
    qed
    then show ?thesis
    proof cases
      case skip
      with c1 q1 have "calls (db st') = calls (db st) @ cs1 \<and> logged cs1 r"
        by (simp add: logged_None)
      then show ?thesis by blast
    next
      case art
      from visitArt_logged [OF art] obtain cs2 where
        "calls (db st') = calls (db ?st2) @ cs2" "quiet cs2" by blast
      moreover have "r = None" using visitArt_frame [OF art] by simp
      ultimately have "calls (db st') = calls (db st) @ (cs1 @ cs2) \<and> logged (cs1 @ cs2) r"
        using c1 q1 by (simp add: logged_None quiet_simps)
      then show ?thesis by blast
    next
      case song
      from visitSong_logged [OF song] obtain cs2 where
        "calls (db st') = calls (db ?st2) @ cs2" "logged cs2 r" by blast
      then have "calls (db st') = calls (db st) @ (cs1 @ cs2) \<and> logged (cs1 @ cs2) r"
        using c1 q1 by (simp add: logged_append)
      then show ?thesis by blast
    qed
  qed
qed

lemma walkEntries_logged:
  "walkEntries E h k es st = (r, st') \<Longrightarrow>
     \<exists>cs. calls (db st') = calls (db st) @ cs \<and> logged cs r"
proof (induction es arbitrary: k st)
  case Nil
  then have "calls (db st') = calls (db st) @ [] \<and> logged [] r"
    by (simp add: logged_None quiet_simps)
  then show ?case by blast
next
  case (Cons e es)
  obtain r1 st1 where w: "walkFn E (h k) e st = (r1, st1)" by (cases "walkFn E (h k) e st")
  from walkFn_logged [OF w] obtain cs1 where
    c1: "calls (db st1) = calls (db st) @ cs1" "logged cs1 r1" by blast
  show ?case
  proof (cases r1)
    case (Some e1)
    with Cons.prems w have "r = r1" "st' = st1" by simp_all
    with c1 show ?thesis by blast
  next
    case None
    with Cons.prems w have "walkEntries E h (Suc k) es st1 = (r, st')" by simp
    from Cons.IH [OF this] obtain cs2 where
      c2: "calls (db st') = calls (db st1) @ cs2" "logged cs2 r" by blast
    have "quiet cs1" using c1 None by (simp add: logged_None)
    with c1 c2 have "calls (db st') = calls (db st) @ (cs1 @ cs2) \<and> logged (cs1 @ cs2) r"
      by (simp add: logged_append)
    then show ?thesis by blast
  qed
qed

lemma updateSongsArt_logged:
  "updateSongsArt E a songs w = (r, w') \<Longrightarrow>
     \<exists>cs. calls w' = calls w @ cs \<and> logged cs r"
proof (induction songs arbitrary: w)
  case Nil
  then have "calls w' = calls w @ [] \<and> logged [] r"
    by (simp add: logged_None quiet_simps)
  then show ?case by blast
next
  case (Cons s songs)
  let ?c = "ArtSongUpdate (ID s)"
  obtain r1 w1 where u: "Song_Update E ?c (s\<lparr>song_ArtID := a\<rparr>) w = (r1, w1)"
    by (cases "Song_Update E ?c (s\<lparr>song_ArtID := a\<rparr>) w")
  then have c1: "calls w1 = calls w @ [(?c, errOf r1)]"
    by (auto simp: store_defs split: option.splits)
  show ?case
  proof (cases r1)
    case (Inl e)
    with Cons.prems u have "r = Some e" "w' = w1" by simp_all
    with c1 Inl have "calls w' = calls w @ [(?c, Some e)] \<and> logged [(?c, Some e)] r"
      by (simp add: logged_def quiet_simps abortsScan_def surfacedAs_def errOf_def)
    then show ?thesis by blast
  next
    case (Inr u')
    with Cons.prems u have "updateSongsArt E a songs w1 = (r, w')" by simp
    from Cons.IH [OF this] obtain cs2 where
      c2: "calls w' = calls w1 @ cs2" "logged cs2 r" by blast
    have "quiet [(?c, errOf r1)]" using Inr by (simp add: quiet_simps abortsScan_def errOf_def)
    with c1 c2 have "calls w' = calls w @ ([(?c, errOf r1)] @ cs2) \<and> logged ([(?c, errOf r1)] @ cs2) r"
      using logged_append by fastforce
    then show ?thesis by blast
  qed
qed

lemma artPass_logged:
  "artPass E pairs w = (r, w') \<Longrightarrow>
     \<exists>cs. calls w' = calls w @ cs \<and> logged cs r"
proof (induction pairs arbitrary: w)
  case Nil
  then have "calls w' = calls w @ [] \<and> logged [] r"
    by (simp add: logged_None quiet_simps)
  then show ?case by blast
next
  case (Cons a pairs)
  let ?c = "SongsForFolder (fst a)"
  obtain r1 w1 where q: "DB_SongsForFolder E (fst a) w = (r1, w1)"
    by (cases "DB_SongsForFolder E (fst a) w")
  then have c1: "calls w1 = calls w @ [(?c, errOf r1)]"
    by (auto simp: store_defs split: option.splits)
  show ?case
  proof (cases r1)
    case (Inl e)
    with Cons.prems q have "r = Some e" "w' = w1" by simp_all
    with c1 Inl have "calls w' = calls w @ [(?c, Some e)] \<and> logged [(?c, Some e)] r"
      by (simp add: logged_def quiet_simps abortsScan_def surfacedAs_def errOf_def)
    then show ?thesis by blast
  next
    case (Inr songs)
    have q1: "quiet [(?c, errOf r1)]" using Inr by (simp add: quiet_simps abortsScan_def errOf_def)
    obtain r2 w2 where u: "updateSongsArt E (snd a) songs w1 = (r2, w2)"
      by (cases "updateSongsArt E (snd a) songs w1")
    from updateSongsArt_logged [OF u] obtain cs2 where
      c2: "calls w2 = calls w1 @ cs2" "logged cs2 r2" by blast
    show ?thesis
    proof (cases r2)
      case (Some e)
      with Cons.prems q Inr u have "r = r2" "w' = w2" by simp_all
      with c1 c2 q1 have "calls w' = calls w @ ([(?c, errOf r1)] @ cs2) \<and> logged ([(?c, errOf r1)] @ cs2) r"
        using logged_append by fastforce
      then show ?thesis by blast
    next
      case None
      with Cons.prems q Inr u have "artPass E pairs w2 = (r, w')" by simp
      from Cons.IH [OF this] obtain cs3 where
        c3: "calls w' = calls w2 @ cs3" "logged cs3 r" by blast
      have "quiet cs2" using c2 None by (simp add: logged_None)
      with q1 have "quiet ([(?c, errOf r1)] @ cs2)" by (simp add: quiet_simps)
      with c1 c2 c3 have "calls w' = calls w @ (([(?c, errOf r1)] @ cs2) @ cs3)
          \<and> logged (([(?c, errOf r1)] @ cs2) @ cs3) r"
        using logged_append by fastforce
      then show ?thesis by blast
    qed
  qed
qed

lemma MediaScan_logged:
  assumes "MediaScan E root h w = (res, w')"
  shows "\<exists>cs. calls w' = calls w @ cs \<and> logged cs (errOf res)"
proof -
  obtain r st where we: "walkEntries E h 0 (walk E root) (newScan w) = (r, st)"
    by (cases "walkEntries E h 0 (walk E root) (newScan w)")
  from walkEntries_logged [OF we] obtain cs1 where
    c1: "calls (db st) = calls w @ cs1" "logged cs1 r" by (auto simp: newScan_def)
  show ?thesis
  proof (cases r)
    case (Some e)
    with we assms have "res = Inl e" "w' = db st" by (simp_all add: MediaScan_def)
    with c1 Some show ?thesis by (auto simp: errOf_def)
  next
    case None
    obtain r2 w2 where ap: "artPass E (artFiles st) (db st) = (r2, w2)"
      by (cases "artPass E (artFiles st) (db st)")
    from artPass_logged [OF ap] obtain cs2 where
      c2: "calls w2 = calls (db st) @ cs2" "logged cs2 r2" by blast
    have "errOf res = r2 \<and> w' = w2"
      using None we ap assms by (cases r2) (auto simp: MediaScan_def errOf_def)
    moreover have "quiet cs1" using c1 None by (simp add: logged_None)
    ultimately have "calls w' = calls w @ (cs1 @ cs2) \<and> logged (cs1 @ cs2) (errOf res)"
      using c1 c2 by (simp add: logged_append)
    then show ?thesis by blast
  qed
qed

text \<open>
  C1 (amended). The claim has every store or filesystem error other than not-found end
  the scan; the source logs the errors of the art, artist, album and song saves and of
  the song update of the traversal and goes on. For every \<open>MediaScan\<close>, with \<open>cs\<close> the
  calls it made: an error returned by a directory listing, a tag read or song
  derivation, the load of a parent folder (other than not-found), the save of a folder,
  the songs-for-folder query or a song update of the deferred pass can only be the last
  call of the scan, and the scan then returns that error (as it is; wrapped with the path
  for a tag read); and the scan returns not-found only when such a call, which is no
  load, returned it.
\<close>

theorem MediaScan_aborting_errors:
  assumes "MediaScan E root haltWalk w = (res, w')"
  shows "\<exists>cs. calls w' = calls w @ cs
           \<and> list_all (\<lambda>c. \<not> abortsScan c) (butlast cs)
           \<and> (cs \<noteq> [] \<and> abortsScan (last cs) \<longrightarrow> errOf res = surfacedAs (last cs))
           \<and> (res = Inl ErrNoRows \<longrightarrow> cs \<noteq> [] \<and> abortsScan (last cs))"
proof -
  from MediaScan_logged [OF assms] obtain cs where
    c: "calls w' = calls w @ cs" "logged cs (errOf res)" by blast
  have q: "quiet cs \<Longrightarrow> quiet (butlast cs) \<and> \<not> (cs \<noteq> [] \<and> abortsScan (last cs))"
    by (cases cs rule: rev_cases) (simp_all add: quiet_simps)
  have "list_all (\<lambda>c. \<not> abortsScan c) (butlast cs)
      \<and> (cs \<noteq> [] \<and> abortsScan (last cs) \<longrightarrow> errOf res = surfacedAs (last cs))
      \<and> (res = Inl ErrNoRows \<longrightarrow> cs \<noteq> [] \<and> abortsScan (last cs))"
  proof (cases res)
    case (Inr n)
    with c q show ?thesis by (auto simp: logged_def errOf_def quiet_def)
  next
    case (Inl e)
    with c q show ?thesis
      by (auto simp: logged_def errOf_def quiet_def raisedByScan_def)
  qed
  with c show ?thesis by blast
qed

text \<open>
  Counterexample to C1 as stated: the store fails the save of the art record with an
  error other than not-found (lines 167-168 log it); the scan goes on, indexes the song
  and returns the count 5 with no error.
\<close>

theorem art_save_error_counterexample:
  "fault brokenArtEnv (ArtSave [''music'', ''a'', ''cover.jpg'']) = Some (Failure ''disk full'')
   \<and> fst (MediaScan brokenArtEnv [''music''] (\<lambda>k. False) emptyWorld) = Inr 5
   \<and> calls (snd (MediaScan brokenArtEnv [''music''] (\<lambda>k. False) emptyWorld)) =
       [(FolderLoad [''music''], Some ErrNoRows), (ReadDir [''music''], None),
        (ParentFolderLoad [], Some ErrNoRows), (FolderSave [''music''], None),
        (FolderLoad [''music'', ''a''], Some ErrNoRows), (ReadDir [''music'', ''a''], None),
        (ParentFolderLoad [''music''], None), (FolderSave [''music'', ''a''], None),
        (ArtLoad [''music'', ''a'', ''cover.jpg''], Some ErrNoRows),
        (ArtSave [''music'', ''a'', ''cover.jpg''], Some (Failure ''disk full'')),
        (TagRead [''music'', ''a'', ''track1.mp3''], None),
        (SongFromFile [''music'', ''a'', ''track1.mp3''], None),
        (ArtistLoad ''ArtistA'', Some ErrNoRows), (ArtistSave ''ArtistA'', None),
        (AlbumLoad 1 ''Album1'', Some ErrNoRows), (AlbumSave 1 ''Album1'', None),
        (SongLoad [''music'', ''a'', ''track1.mp3''], Some ErrNoRows),
        (SongSave [''music'', ''a'', ''track1.mp3''], None)]"
  by code_simp

text \<open>
  Witness for C1: the listing of \<open>/music\<close> fails; it is the last call of the scan and
  its error is what the scan returns.
\<close>

theorem MediaScan_aborting_errors_witness:
  "fst (MediaScan lockedEnv [''music''] (\<lambda>k. False) emptyWorld) = Inl (Failure ''permission denied'')
   \<and> calls (snd (MediaScan lockedEnv [''music''] (\<lambda>k. False) emptyWorld)) =
       [(FolderLoad [''music''], Some ErrNoRows),
        (ReadDir [''music''], Some (Failure ''permission denied''))]
   \<and> abortsScan (ReadDir [''music''], Some (Failure ''permission denied''))
   \<and> errOf (fst (MediaScan lockedEnv [''music''] (\<lambda>k. False) emptyWorld)) =
       surfacedAs (ReadDir [''music''], Some (Failure ''permission denied''))"
proof -
  let ?L = "[(FolderLoad [''music''], Some ErrNoRows),
             (ReadDir [''music''], Some (Failure ''permission denied''))]"
  have ev: "MediaScan lockedEnv [''music''] (\<lambda>k. False) emptyWorld =
      (Inl (Failure ''permission denied''), emptyWorld\<lparr>calls := ?L\<rparr>)"
    by code_simp
  from MediaScan_aborting_errors [OF ev] obtain cs where
    c: "calls (emptyWorld\<lparr>calls := ?L\<rparr>) = calls emptyWorld @ cs"
    and imp: "cs \<noteq> [] \<and> abortsScan (last cs) \<longrightarrow>
                errOf (Inl (Failure ''permission denied'') :: error + nat) = surfacedAs (last cs)"
    by blast
  from c have cs: "cs = ?L" by (simp add: emptyWorld_def)
  have ab: "abortsScan (ReadDir [''music''], Some (Failure ''permission denied''))"
    by (simp add: abortsScan_def)
  from imp cs ab have "errOf (Inl (Failure ''permission denied'') :: error + nat) =
      surfacedAs (ReadDir [''music''], Some (Failure ''permission denied''))" by simp
  with ev ab show ?thesis by simp
qed

section \<open>An audio file that is already indexed\<close>





section \<open>OrphanScan: the base eviction\<close>

lemmas orphan_defs =
  DB_ArtNotInPath_def DB_SongsNotInPath_def DB_FoldersNotInPath_def DB_ArtInPath_def
  DB_SongsInPath_def DB_FoldersInPath_def Art_Delete_def Song_Delete_def Folder_Delete_def
  DB_PurgeOrphanAlbums_def DB_PurgeOrphanArtists_def

lemma rows_fold_delete:
  "rows (fold (\<lambda>a. tbl_delete (ID a)) xs t) = filter (\<lambda>r. ID r \<notin> ID ` set xs) (rows t)"
proof (induction xs arbitrary: t)
  case Nil
  show ?case by simp
next
  case (Cons x xs)
  have "filter (\<lambda>r. ID r \<notin> ID ` set xs) (filter (\<lambda>r. ID r \<noteq> ID x) (rows t))
      = filter (\<lambda>r. ID r \<notin> ID ` set (x # xs)) (rows t)"
    by (auto intro: filter_cong)
  then show ?case by (simp add: Cons.IH rows_delete)
qed

lemma rows_ID_eq:
  assumes "x \<in> set (rows t)" and "y \<in> set (rows t)" and "ID x = ID y"
  shows "x = y"
  using rows_distinct [of t] assms by (meson distinct_map inj_on_eq_iff)

lemma rows_delete_filtered:
  "rows (fold (\<lambda>a. tbl_delete (ID a)) (filter (\<lambda>r. \<not> P r) (rows t)) t) = filter P (rows t)"
proof -
  have "\<And>r. r \<in> set (rows t) \<Longrightarrow>
      (ID r \<notin> ID ` set (filter (\<lambda>r. \<not> P r) (rows t))) = P r"
    using rows_ID_eq [of _ t] by fastforce
  then show ?thesis
    unfolding rows_fold_delete by (intro filter_cong) auto
qed

lemma deleteEach_Art:
  "deleteEach (Art_Delete E) countArt xs st = (None, st') \<Longrightarrow>
     Arts (odb st') = fold (\<lambda>a. tbl_delete (ID a)) xs (Arts (odb st))
     \<and> Songs (odb st') = Songs (odb st) \<and> Folders (odb st') = Folders (odb st)
     \<and> Artists (odb st') = Artists (odb st) \<and> Albums (odb st') = Albums (odb st)
     \<and> o_artCount st' = o_artCount st + length xs
     \<and> o_songCount st' = o_songCount st \<and> o_folderCount st' = o_folderCount st"
proof (induction xs arbitrary: st)
  case Nil
  then show ?case by simp
next
  case (Cons x xs)
  obtain r w1 where d: "Art_Delete E x (odb st) = (r, w1)" by (cases "Art_Delete E x (odb st)")
  show ?case
  proof (cases r)
    case (Inl e)
    with Cons.prems d show ?thesis by simp
  next
    case (Inr u)
    with Cons.prems d have "deleteEach (Art_Delete E) countArt xs (countArt (st\<lparr>odb := w1\<rparr>)) = (None, st')"
      by simp
    from Cons.IH [OF this] d Inr show ?thesis
      by (auto simp: Art_Delete_def countArt_def store_defs split: option.splits)
  qed
qed

lemma deleteEach_Song:
  "deleteEach (Song_Delete E) countSong xs st = (None, st') \<Longrightarrow>
     Songs (odb st') = fold (\<lambda>a. tbl_delete (ID a)) xs (Songs (odb st))
     \<and> Arts (odb st') = Arts (odb st) \<and> Folders (odb st') = Folders (odb st)
     \<and> Artists (odb st') = Artists (odb st) \<and> Albums (odb st') = Albums (odb st)
     \<and> o_songCount st' = o_songCount st + length xs
     \<and> o_artCount st' = o_artCount st \<and> o_folderCount st' = o_folderCount st"
proof (induction xs arbitrary: st)
  case Nil
  then show ?case by simp
next
  case (Cons x xs)
  obtain r w1 where d: "Song_Delete E x (odb st) = (r, w1)" by (cases "Song_Delete E x (odb st)")
  show ?case
  proof (cases r)
    case (Inl e)
    with Cons.prems d show ?thesis by simp
  next
    case (Inr u)
    with Cons.prems d have "deleteEach (Song_Delete E) countSong xs (countSong (st\<lparr>odb := w1\<rparr>)) = (None, st')"
      by simp
    from Cons.IH [OF this] d Inr show ?thesis
      by (auto simp: Song_Delete_def countSong_def store_defs split: option.splits)
  qed
qed

lemma deleteEach_Folder:
  "deleteEach (Folder_Delete E) countFolder xs st = (None, st') \<Longrightarrow>
     Folders (odb st') = fold (\<lambda>a. tbl_delete (ID a)) xs (Folders (odb st))
     \<and> Arts (odb st') = Arts (odb st) \<and> Songs (odb st') = Songs (odb st)
     \<and> Artists (odb st') = Artists (odb st) \<and> Albums (odb st') = Albums (odb st)
     \<and> o_folderCount st' = o_folderCount st + length xs
     \<and> o_artCount st' = o_artCount st \<and> o_songCount st' = o_songCount st"
proof (induction xs arbitrary: st)
  case Nil
  then show ?case by simp
next
  case (Cons x xs)
  obtain r w1 where d: "Folder_Delete E x (odb st) = (r, w1)" by (cases "Folder_Delete E x (odb st)")
  show ?case
  proof (cases r)
    case (Inl e)
    with Cons.prems d show ?thesis by simp
  next
    case (Inr u)
    with Cons.prems d have "deleteEach (Folder_Delete E) countFolder xs (countFolder (st\<lparr>odb := w1\<rparr>)) = (None, st')"
      by simp
    from Cons.IH [OF this] d Inr show ?thesis
      by (auto simp: Folder_Delete_def countFolder_def store_defs split: option.splits)
  qed
qed

lemma evictBase_effect:
  assumes "baseFolder \<noteq> []" and "evictBase E baseFolder st = (None, st')"
  shows "rows (Arts (odb st')) = filter (\<lambda>a. inPath baseFolder (art_FileName a)) (rows (Arts (odb st)))
       \<and> rows (Songs (odb st')) = filter (\<lambda>s. inPath baseFolder (song_FileName s)) (rows (Songs (odb st)))
       \<and> rows (Folders (odb st')) = filter (\<lambda>f. inPath baseFolder (folder_Path f)) (rows (Folders (odb st)))
       \<and> Artists (odb st') = Artists (odb st) \<and> Albums (odb st') = Albums (odb st)
       \<and> o_artCount st' = o_artCount st
            + length (filter (\<lambda>a. \<not> inPath baseFolder (art_FileName a)) (rows (Arts (odb st))))
       \<and> o_songCount st' = o_songCount st
            + length (filter (\<lambda>s. \<not> inPath baseFolder (song_FileName s)) (rows (Songs (odb st))))
       \<and> o_folderCount st' = o_folderCount st
            + length (filter (\<lambda>f. \<not> inPath baseFolder (folder_Path f)) (rows (Folders (odb st))))"
proof -
  let ?arts = "filter (\<lambda>a. \<not> inPath baseFolder (art_FileName a)) (rows (Arts (odb st)))"
  let ?songs = "filter (\<lambda>s. \<not> inPath baseFolder (song_FileName s)) (rows (Songs (odb st)))"
  let ?folders = "filter (\<lambda>f. \<not> inPath baseFolder (folder_Path f)) (rows (Folders (odb st)))"
  let ?w1 = "logCall (ArtNotInPath baseFolder) None (odb st)"
  have f1: "fault E (ArtNotInPath baseFolder) = None"
    using assms by (auto simp: evictBase_def orphan_defs store_defs split: option.splits)
  obtain r1 st1 where d1: "deleteEach (Art_Delete E) countArt ?arts (st\<lparr>odb := ?w1\<rparr>) = (r1, st1)"
    by (cases "deleteEach (Art_Delete E) countArt ?arts (st\<lparr>odb := ?w1\<rparr>)")
  have r1: "r1 = None"
    using assms f1 d1 by (cases r1) (auto simp: evictBase_def DB_ArtNotInPath_def store_defs)
  note e1 = deleteEach_Art [OF d1 [unfolded r1]]
  have s1: "Songs (odb st1) = Songs (odb st)" "Folders (odb st1) = Folders (odb st)"
    using e1 by (simp_all add: logCall_def)
  let ?w2 = "logCall (SongsNotInPath baseFolder) None (odb st1)"
  have f2: "fault E (SongsNotInPath baseFolder) = None"
    using assms f1 d1 r1
    by (auto simp: evictBase_def orphan_defs store_defs split: option.splits)
  obtain r2 st2 where d2: "deleteEach (Song_Delete E) countSong ?songs (st1\<lparr>odb := ?w2\<rparr>) = (r2, st2)"
    by (cases "deleteEach (Song_Delete E) countSong ?songs (st1\<lparr>odb := ?w2\<rparr>)")
  have r2: "r2 = None"
    using assms f1 d1 r1 f2 d2 s1
    by (cases r2) (auto simp: evictBase_def DB_ArtNotInPath_def DB_SongsNotInPath_def store_defs)
  note e2 = deleteEach_Song [OF d2 [unfolded r2]]
  have s2: "Folders (odb st2) = Folders (odb st)"
    using e2 s1 by (simp add: logCall_def)
  let ?w3 = "logCall (FoldersNotInPath baseFolder) None (odb st2)"
  have f3: "fault E (FoldersNotInPath baseFolder) = None"
    using assms f1 d1 r1 f2 d2 r2 s1
    by (auto simp: evictBase_def orphan_defs store_defs split: option.splits)
  have d3: "deleteEach (Folder_Delete E) countFolder ?folders (st2\<lparr>odb := ?w3\<rparr>) = (None, st')"
    using assms f1 d1 r1 f2 d2 r2 f3 s1 s2
    by (auto simp: evictBase_def DB_ArtNotInPath_def DB_SongsNotInPath_def
          DB_FoldersNotInPath_def store_defs)
  note e3 = deleteEach_Folder [OF d3]
  have "Arts (odb st') = fold (\<lambda>a. tbl_delete (ID a)) ?arts (Arts (odb st))"
    using e1 e2 e3 by (simp add: logCall_def)
  moreover have "Songs (odb st') = fold (\<lambda>a. tbl_delete (ID a)) ?songs (Songs (odb st))"
    using e1 e2 e3 by (simp add: logCall_def)
  moreover have "Folders (odb st') = fold (\<lambda>a. tbl_delete (ID a)) ?folders (Folders (odb st))"
    using e1 e2 e3 by (simp add: logCall_def)
  moreover have "Artists (odb st') = Artists (odb st) \<and> Albums (odb st') = Albums (odb st)"
    using e1 e2 e3 by (simp add: logCall_def)
  moreover have "o_artCount st' = o_artCount st + length ?arts
      \<and> o_songCount st' = o_songCount st + length ?songs
      \<and> o_folderCount st' = o_folderCount st + length ?folders"
    using e1 e2 e3 by simp
  ultimately show ?thesis by (simp add: rows_delete_filtered)
qed

lemma onlyDeletes_refl: "onlyDeletes w w"
  by (simp add: onlyDeletes_def)

lemma onlyDeletes_trans: "onlyDeletes w w1 \<Longrightarrow> onlyDeletes w1 w2 \<Longrightarrow> onlyDeletes w w2"
  by (auto simp: onlyDeletes_def)

lemma onlyDeletes_log: "onlyDeletes w (logCall c r w)"
  by (simp add: onlyDeletes_def logCall_def)

lemma Art_Delete_onlyDeletes: "Art_Delete E x w = (r, w') \<Longrightarrow> onlyDeletes w w'"
  by (auto simp: Art_Delete_def store_defs onlyDeletes_def rows_delete split: option.splits)

lemma Song_Delete_onlyDeletes: "Song_Delete E x w = (r, w') \<Longrightarrow> onlyDeletes w w'"
  by (auto simp: Song_Delete_def store_defs onlyDeletes_def rows_delete split: option.splits)

lemma Folder_Delete_onlyDeletes: "Folder_Delete E x w = (r, w') \<Longrightarrow> onlyDeletes w w'"
  by (auto simp: Folder_Delete_def store_defs onlyDeletes_def rows_delete split: option.splits)

lemma deleteMissing_onlyDeletes:
  assumes del: "\<And>x w r w'. del x w = (r, w') \<Longrightarrow> onlyDeletes w w'"
      and cnt: "\<And>s. odb (cnt s) = odb s"
  shows "deleteMissing E fn del cnt xs st = (r, st') \<Longrightarrow> onlyDeletes (odb st) (odb st')"
proof (induction xs arbitrary: st)
  case Nil
  then show ?case by (simp add: onlyDeletes_refl)
next
  case (Cons x xs)
  let ?w1 = "logCall (Stat (fn x)) (errOf (stat E (fn x))) (odb st)"
  have l1: "onlyDeletes (odb st) ?w1" by (rule onlyDeletes_log)
  show ?case
  proof (cases "os_IsNotExist (errOf (stat E (fn x)))")
    case False
    with Cons.prems have "deleteMissing E fn del cnt xs (st\<lparr>odb := ?w1\<rparr>) = (r, st')"
      by (simp add: sysCall_def)
    from Cons.IH [OF this] l1 show ?thesis by (auto intro: onlyDeletes_trans)
  next
    case True
    obtain r2 w2 where d: "del x ?w1 = (r2, w2)" by (cases "del x ?w1")
    from del [OF d] l1 have l2: "onlyDeletes (odb st) w2" by (rule onlyDeletes_trans [rotated])
    show ?thesis
    proof (cases r2)
      case (Inl e)
      with Cons.prems True d have "st' = st\<lparr>odb := w2\<rparr>" by (simp add: sysCall_def)
      with l2 show ?thesis by simp
    next
      case (Inr u)
      with Cons.prems True d have "deleteMissing E fn del cnt xs (cnt (st\<lparr>odb := w2\<rparr>)) = (r, st')"
        by (simp add: sysCall_def)
      from Cons.IH [OF this] l2 cnt show ?thesis by (auto intro: onlyDeletes_trans)
    qed
  qed
qed

lemma deleteEmptyFolders_onlyDeletes:
  "deleteEmptyFolders E fs st = (r, st') \<Longrightarrow> onlyDeletes (odb st) (odb st')"
proof (induction fs arbitrary: st)
  case Nil
  then show ?case by (simp add: onlyDeletes_refl)
next
  case (Cons f fs)
  let ?rd = "readDir E (folder_Path f)"
  let ?w1 = "logCall (ReadDir (folder_Path f)) (errOf ?rd) (odb st)"
  have l1: "onlyDeletes (odb st) ?w1" by (rule onlyDeletes_log)
  consider (err) "st' = st\<lparr>odb := ?w1\<rparr>"
    | (del) r2 w2 where "Folder_Delete E f ?w1 = (r2, w2)"
        "st' = st\<lparr>odb := w2\<rparr> \<or> deleteEmptyFolders E fs (countFolder (st\<lparr>odb := w2\<rparr>)) = (r, st')"
    | (keep) "deleteEmptyFolders E fs (st\<lparr>odb := ?w1\<rparr>) = (r, st')"
  proof (cases "errOf ?rd \<noteq> None \<and> \<not> os_IsNotExist (errOf ?rd)")
    case True
    with Cons.prems have "st' = st\<lparr>odb := ?w1\<rparr>" by (auto simp: sysCall_def)
    then show ?thesis using that(1) by blast
  next
    case False
    note ne = this
    show ?thesis
    proof (cases "length (case ?rd of Inr files \<Rightarrow> files | Inl e \<Rightarrow> []) = 0")
      case False
      with ne Cons.prems have "deleteEmptyFolders E fs (st\<lparr>odb := ?w1\<rparr>) = (r, st')"
        by (auto simp: sysCall_def split: if_splits)
      then show ?thesis using that(3) by blast
    next
      case True
      obtain r2 w2 where d: "Folder_Delete E f ?w1 = (r2, w2)" by (cases "Folder_Delete E f ?w1")
      have "st' = st\<lparr>odb := w2\<rparr> \<or> deleteEmptyFolders E fs (countFolder (st\<lparr>odb := w2\<rparr>)) = (r, st')"
        using ne True Cons.prems d by (cases r2) (auto simp: sysCall_def split: if_splits)
      with d show ?thesis using that(2) by blast
    qed
  qed
  then show ?case
  proof cases
    case err
    with l1 show ?thesis by simp
  next
    case (del r2 w2)
    from Folder_Delete_onlyDeletes [OF del(1)] l1 have l2: "onlyDeletes (odb st) w2"
      by (rule onlyDeletes_trans [rotated])
    from del(2) show ?thesis
    proof
      assume "st' = st\<lparr>odb := w2\<rparr>"
      with l2 show ?thesis by simp
    next
      assume "deleteEmptyFolders E fs (countFolder (st\<lparr>odb := w2\<rparr>)) = (r, st')"
      from Cons.IH [OF this] l2 show ?thesis
        by (auto simp: countFolder_def intro: onlyDeletes_trans)
    qed
  next
    case keep
    from Cons.IH [OF keep] l1 show ?thesis by (auto intro: onlyDeletes_trans)
  qed
qed

lemma query_onlyDeletes:
  "storeCall E c (\<lambda>w. (f w, w)) w = (r, w') \<Longrightarrow> onlyDeletes w w'"
  by (auto simp: storeCall_def onlyDeletes_log split: option.splits)

lemma verifySub_onlyDeletes:
  assumes "verifySub E sub st = (r, st')"
  shows "onlyDeletes (odb st) (odb st')"
proof -
  obtain q1 w1 where a1: "DB_ArtInPath E sub (odb st) = (q1, w1)" by (cases "DB_ArtInPath E sub (odb st)")
  then have l1: "onlyDeletes (odb st) w1" unfolding DB_ArtInPath_def by (rule query_onlyDeletes)
  show ?thesis
  proof (cases q1)
    case (Inl e)
    with assms a1 l1 show ?thesis by (auto simp: verifySub_def)
  next
    case (Inr arts)
    note q1 = this
    obtain r1 st1 where d1: "deleteMissing E art_FileName (Art_Delete E) countArt arts (st\<lparr>odb := w1\<rparr>) = (r1, st1)"
      by (cases "deleteMissing E art_FileName (Art_Delete E) countArt arts (st\<lparr>odb := w1\<rparr>)")
    have "onlyDeletes (odb (st\<lparr>odb := w1\<rparr>)) (odb st1)"
      by (rule deleteMissing_onlyDeletes [OF _ _ d1])
         (auto simp: countArt_def dest: Art_Delete_onlyDeletes)
    with l1 have l2: "onlyDeletes (odb st) (odb st1)" by (auto intro: onlyDeletes_trans)
    show ?thesis
    proof (cases r1)
      case (Some e)
      with assms a1 q1 d1 l2 show ?thesis by (auto simp: verifySub_def)
    next
      case None
      note r1 = this
      obtain q2 w2 where a2: "DB_SongsInPath E sub (odb st1) = (q2, w2)"
        by (cases "DB_SongsInPath E sub (odb st1)")
      then have "onlyDeletes (odb st1) w2" unfolding DB_SongsInPath_def by (rule query_onlyDeletes)
      with l2 have l3: "onlyDeletes (odb st) w2" by (rule onlyDeletes_trans)
      show ?thesis
      proof (cases q2)
        case (Inl e)
        with assms a1 q1 d1 r1 a2 l3 show ?thesis by (auto simp: verifySub_def)
      next
        case (Inr songs)
        note q2 = this
        obtain r2 st2 where d2: "deleteMissing E song_FileName (Song_Delete E) countSong songs (st1\<lparr>odb := w2\<rparr>) = (r2, st2)"
          by (cases "deleteMissing E song_FileName (Song_Delete E) countSong songs (st1\<lparr>odb := w2\<rparr>)")
        have "onlyDeletes (odb (st1\<lparr>odb := w2\<rparr>)) (odb st2)"
          by (rule deleteMissing_onlyDeletes [OF _ _ d2])
             (auto simp: countSong_def dest: Song_Delete_onlyDeletes)
        with l3 have l4: "onlyDeletes (odb st) (odb st2)" by (auto intro: onlyDeletes_trans)
        show ?thesis
        proof (cases r2)
          case (Some e)
          with assms a1 q1 d1 r1 a2 q2 d2 l4 show ?thesis by (auto simp: verifySub_def)
        next
          case None
          note r2 = this
          obtain q3 w3 where a3: "DB_FoldersInPath E sub (odb st2) = (q3, w3)"
            by (cases "DB_FoldersInPath E sub (odb st2)")
          then have "onlyDeletes (odb st2) w3" unfolding DB_FoldersInPath_def by (rule query_onlyDeletes)
          with l4 have l5: "onlyDeletes (odb st) w3" by (rule onlyDeletes_trans)
          show ?thesis
          proof (cases q3)
            case (Inl e)
            with assms a1 q1 d1 r1 a2 q2 d2 r2 a3 l5 show ?thesis by (auto simp: verifySub_def)
          next
            case (Inr folders)
            with assms a1 q1 d1 r1 a2 q2 d2 r2 a3
            have "deleteEmptyFolders E folders (st2\<lparr>odb := w3\<rparr>) = (r, st')"
              by (simp add: verifySub_def)
            from deleteEmptyFolders_onlyDeletes [OF this] l5 show ?thesis
              by (auto intro: onlyDeletes_trans)
          qed
        qed
      qed
    qed
  qed
qed

lemma PurgeOrphanAlbums_effect:
  assumes "DB_PurgeOrphanAlbums E w = (Inr k, w1)"
  shows "k = length (orphanAlbums w)
       \<and> rows (Albums w1) =
           filter (\<lambda>a. list_ex (\<lambda>s. song_AlbumID s = ID a) (rows (Songs w))) (rows (Albums w))
       \<and> Songs w1 = Songs w \<and> Artists w1 = Artists w \<and> Arts w1 = Arts w \<and> Folders w1 = Folders w"
  using assms rows_delete_filtered [of "\<lambda>a. list_ex (\<lambda>s. song_AlbumID s = ID a) (rows (Songs w))" "Albums w"]
  by (auto simp: DB_PurgeOrphanAlbums_def orphanAlbums_def store_defs split: option.splits)

lemma PurgeOrphanArtists_effect:
  assumes "DB_PurgeOrphanArtists E w = (Inr k, w1)"
  shows "k = length (orphanArtists w)
       \<and> rows (Artists w1) =
           filter (\<lambda>a. list_ex (\<lambda>b. album_ArtistID b = ID a) (rows (Albums w))) (rows (Artists w))
       \<and> Songs w1 = Songs w \<and> Albums w1 = Albums w \<and> Arts w1 = Arts w \<and> Folders w1 = Folders w"
  using assms rows_delete_filtered [of "\<lambda>a. list_ex (\<lambda>b. album_ArtistID b = ID a) (rows (Albums w))" "Artists w"]
  by (auto simp: DB_PurgeOrphanArtists_def orphanArtists_def store_defs split: option.splits)

lemma OrphanScan_phases:
  assumes "OrphanScan E baseFolder subFolder h w = (Inr n, w')"
  obtains st0 st1 k1 w1 k2 where
    "evictBase E baseFolder (newOrphan w) = (None, st0)"
    "verifySub E (if subFolder = [] then baseFolder else subFolder) st0 = (None, st1)"
    "DB_PurgeOrphanAlbums E (odb st1) = (Inr k1, w1)"
    "DB_PurgeOrphanArtists E w1 = (Inr k2, w')"
    "n = o_artCount st1 + k2 + k1 + o_songCount st1 + o_folderCount st1"
proof -
  obtain r0 st0 where e: "evictBase E baseFolder (newOrphan w) = (r0, st0)"
    by (cases "evictBase E baseFolder (newOrphan w)")
  have r0: "r0 = None" using assms e by (cases r0) (simp_all add: OrphanScan_def)
  obtain r1 st1 where v: "verifySub E (if subFolder = [] then baseFolder else subFolder) st0 = (r1, st1)"
    by (cases "verifySub E (if subFolder = [] then baseFolder else subFolder) st0")
  have r1: "r1 = None" using assms e r0 v by (cases r1) (simp_all add: OrphanScan_def)
  obtain q1 w1 where p1: "DB_PurgeOrphanAlbums E (odb st1) = (q1, w1)"
    by (cases "DB_PurgeOrphanAlbums E (odb st1)")
  obtain k1 where q1: "q1 = Inr k1" using assms e r0 v r1 p1 by (cases q1) (simp_all add: OrphanScan_def)
  obtain q2 w2 where p2: "DB_PurgeOrphanArtists E w1 = (q2, w2)"
    by (cases "DB_PurgeOrphanArtists E w1")
  obtain k2 where q2: "q2 = Inr k2" using assms e r0 v r1 p1 q1 p2 by (cases q2) (simp_all add: OrphanScan_def)
  have "w' = w2" "n = o_artCount st1 + k2 + k1 + o_songCount st1 + o_folderCount st1"
    using assms e r0 v r1 p1 q1 p2 q2 by (simp_all add: OrphanScan_def)
  with e r0 v r1 p1 q1 p2 q2 show ?thesis using that by blast
qed

text \<open>
  C8. For every \<open>OrphanScan\<close> with a non-empty base folder that returns without error:
  the eviction phase (lines 360-419) ends without error and leaves in the art, song and
  folder tables exactly the rows whose path falls under the base folder, each with its
  ID: every row outside is deleted, whatever the filesystem holds (the phase asks it
  nothing), and no row under the base folder is; and the store the scan leaves has no
  art, song or folder row outside the base folder.
\<close>

theorem base_eviction_removes_exactly_outside:
  assumes "baseFolder \<noteq> []"
      and "OrphanScan E baseFolder subFolder haltOrphanScan w = (Inr n, w')"
  shows "\<exists>st. evictBase E baseFolder (newOrphan w) = (None, st)
       \<and> rows (Arts (odb st)) = filter (\<lambda>a. inPath baseFolder (art_FileName a)) (rows (Arts w))
       \<and> rows (Songs (odb st)) = filter (\<lambda>s. inPath baseFolder (song_FileName s)) (rows (Songs w))
       \<and> rows (Folders (odb st)) = filter (\<lambda>f. inPath baseFolder (folder_Path f)) (rows (Folders w))
       \<and> list_all (\<lambda>a. inPath baseFolder (art_FileName a)) (rows (Arts w'))
       \<and> list_all (\<lambda>s. inPath baseFolder (song_FileName s)) (rows (Songs w'))
       \<and> list_all (\<lambda>f. inPath baseFolder (folder_Path f)) (rows (Folders w'))"
proof -
  from assms(2) obtain st0 st1 k1 w1 k2 where
    e: "evictBase E baseFolder (newOrphan w) = (None, st0)"
    and v: "verifySub E (if subFolder = [] then baseFolder else subFolder) st0 = (None, st1)"
    and p1: "DB_PurgeOrphanAlbums E (odb st1) = (Inr k1, w1)"
    and p2: "DB_PurgeOrphanArtists E w1 = (Inr k2, w')"
    by (rule OrphanScan_phases)
  note ev = evictBase_effect [OF assms(1) e]
  have rows0: "rows (Arts (odb st0)) = filter (\<lambda>a. inPath baseFolder (art_FileName a)) (rows (Arts w))"
       "rows (Songs (odb st0)) = filter (\<lambda>s. inPath baseFolder (song_FileName s)) (rows (Songs w))"
       "rows (Folders (odb st0)) = filter (\<lambda>f. inPath baseFolder (folder_Path f)) (rows (Folders w))"
    using ev by (simp_all add: newOrphan_def)
  have "onlyDeletes (odb st0) (odb st1)" by (rule verifySub_onlyDeletes [OF v])
  moreover have "Arts w' = Arts (odb st1)" "Songs w' = Songs (odb st1)" "Folders w' = Folders (odb st1)"
    using PurgeOrphanAlbums_effect [OF p1] PurgeOrphanArtists_effect [OF p2] by simp_all
  ultimately have sub: "set (rows (Arts w')) \<subseteq> set (rows (Arts (odb st0)))"
      "set (rows (Songs w')) \<subseteq> set (rows (Songs (odb st0)))"
      "set (rows (Folders w')) \<subseteq> set (rows (Folders (odb st0)))"
    by (simp_all add: onlyDeletes_def)
  have "list_all (\<lambda>a. inPath baseFolder (art_FileName a)) (rows (Arts w'))"
    using sub(1) rows0(1) by (auto simp: list_all_iff)
  moreover have "list_all (\<lambda>s. inPath baseFolder (song_FileName s)) (rows (Songs w'))"
    using sub(2) rows0(2) by (auto simp: list_all_iff)
  moreover have "list_all (\<lambda>f. inPath baseFolder (folder_Path f)) (rows (Folders w'))"
    using sub(3) rows0(3) by (auto simp: list_all_iff)
  ultimately show ?thesis using e rows0 by blast
qed

text \<open>
  C9. For every \<open>OrphanScan\<close> that returns without error: the eviction and the
  verification have ended without error in a state \<open>st1\<close>; the album purge runs on the
  store of \<open>st1\<close> and leaves exactly the albums that still have a song; the artist
  purge runs on the store \<open>w1\<close> the album purge left and leaves exactly the artists
  that still have an album there; the count returned is the three counters of \<open>st1\<close>
  plus the number of albums and the number of artists purged; and the store the scan
  leaves has no album without a song and no artist without an album.
\<close>

theorem purge_after_cleanup_children_first:
  assumes "OrphanScan E baseFolder subFolder haltOrphanScan w = (Inr n, w')"
  shows "\<exists>st0 st1 w1.
         evictBase E baseFolder (newOrphan w) = (None, st0)
       \<and> verifySub E (if subFolder = [] then baseFolder else subFolder) st0 = (None, st1)
       \<and> DB_PurgeOrphanAlbums E (odb st1) = (Inr (length (orphanAlbums (odb st1))), w1)
       \<and> rows (Albums w1) =
           filter (\<lambda>a. list_ex (\<lambda>s. song_AlbumID s = ID a) (rows (Songs (odb st1))))
             (rows (Albums (odb st1)))
       \<and> Songs w1 = Songs (odb st1) \<and> Artists w1 = Artists (odb st1)
       \<and> DB_PurgeOrphanArtists E w1 = (Inr (length (orphanArtists w1)), w')
       \<and> rows (Artists w') =
           filter (\<lambda>a. list_ex (\<lambda>b. album_ArtistID b = ID a) (rows (Albums w1))) (rows (Artists w1))
       \<and> Songs w' = Songs w1 \<and> Albums w' = Albums w1
       \<and> n = o_artCount st1 + o_songCount st1 + o_folderCount st1
             + length (orphanAlbums (odb st1)) + length (orphanArtists w1)
       \<and> orphanAlbums w' = [] \<and> orphanArtists w' = []"
proof -
  from assms obtain st0 st1 k1 w1 k2 where
    e: "evictBase E baseFolder (newOrphan w) = (None, st0)"
    and v: "verifySub E (if subFolder = [] then baseFolder else subFolder) st0 = (None, st1)"
    and p1: "DB_PurgeOrphanAlbums E (odb st1) = (Inr k1, w1)"
    and p2: "DB_PurgeOrphanArtists E w1 = (Inr k2, w')"
    and n: "n = o_artCount st1 + k2 + k1 + o_songCount st1 + o_folderCount st1"
    by (rule OrphanScan_phases)
  note a = PurgeOrphanAlbums_effect [OF p1]
  note b = PurgeOrphanArtists_effect [OF p2]
  have "orphanAlbums w' = []"
    using a b by (simp add: orphanAlbums_def filter_empty_conv)
  moreover have "orphanArtists w' = []"
    using a b by (simp add: orphanArtists_def filter_empty_conv)
  moreover have "n = o_artCount st1 + o_songCount st1 + o_folderCount st1
             + length (orphanAlbums (odb st1)) + length (orphanArtists w1)"
    using n a b by simp
  ultimately show ?thesis using e v p1 p2 a b by blast
qed

lemma OrphanScan_outsideWorld:
  "OrphanScan libraryEnv [''music''] [] (\<lambda>k. False) outsideWorld = (Inr 5, sweptWorld)"
  by code_simp

text \<open>
  Witness for C8: the base folder \<open>/music\<close> over the store that also indexes \<open>/old\<close>.
\<close>

theorem base_eviction_removes_exactly_outside_witness:
  "[''music''] \<noteq> ([] :: path)
   \<and> OrphanScan libraryEnv [''music''] [] (\<lambda>k. False) outsideWorld = (Inr 5, sweptWorld)
   \<and> (\<exists>st. evictBase libraryEnv [''music''] (newOrphan outsideWorld) = (None, st)
       \<and> rows (Arts (odb st)) = filter (\<lambda>a. inPath [''music''] (art_FileName a)) (rows (Arts outsideWorld))
       \<and> rows (Songs (odb st)) = filter (\<lambda>s. inPath [''music''] (song_FileName s)) (rows (Songs outsideWorld))
       \<and> rows (Folders (odb st)) = filter (\<lambda>f. inPath [''music''] (folder_Path f)) (rows (Folders outsideWorld))
       \<and> list_all (\<lambda>a. inPath [''music''] (art_FileName a)) (rows (Arts sweptWorld))
       \<and> list_all (\<lambda>s. inPath [''music''] (song_FileName s)) (rows (Songs sweptWorld))
       \<and> list_all (\<lambda>f. inPath [''music''] (folder_Path f)) (rows (Folders sweptWorld)))"
proof -
  have ne: "[''music''] \<noteq> ([] :: path)" by simp
  from base_eviction_removes_exactly_outside [OF ne OrphanScan_outsideWorld]
  show ?thesis using OrphanScan_outsideWorld by simp
qed

text \<open>
  Witness for C9: the same scan; the album and the artist of \<open>/old/x.mp3\<close> are purged
  after the song, and the count is 5.
\<close>

theorem purge_after_cleanup_children_first_witness:
  "OrphanScan libraryEnv [''music''] [] (\<lambda>k. False) outsideWorld = (Inr 5, sweptWorld)
   \<and> (\<exists>st0 st1 w1.
         evictBase libraryEnv [''music''] (newOrphan outsideWorld) = (None, st0)
       \<and> verifySub libraryEnv [''music''] st0 = (None, st1)
       \<and> DB_PurgeOrphanAlbums libraryEnv (odb st1) = (Inr (length (orphanAlbums (odb st1))), w1)
       \<and> rows (Albums w1) =
           filter (\<lambda>a. list_ex (\<lambda>s. song_AlbumID s = ID a) (rows (Songs (odb st1))))
             (rows (Albums (odb st1)))
       \<and> Songs w1 = Songs (odb st1) \<and> Artists w1 = Artists (odb st1)
       \<and> DB_PurgeOrphanArtists libraryEnv w1 = (Inr (length (orphanArtists w1)), sweptWorld)
       \<and> rows (Artists sweptWorld) =
           filter (\<lambda>a. list_ex (\<lambda>b. album_ArtistID b = ID a) (rows (Albums w1))) (rows (Artists w1))
       \<and> Songs sweptWorld = Songs w1 \<and> Albums sweptWorld = Albums w1
       \<and> 5 = o_artCount st1 + o_songCount st1 + o_folderCount st1
             + length (orphanAlbums (odb st1)) + length (orphanArtists w1)
       \<and> orphanAlbums sweptWorld = [] \<and> orphanArtists sweptWorld = [])"
proof -
  from purge_after_cleanup_children_first [OF OrphanScan_outsideWorld]
  show ?thesis using OrphanScan_outsideWorld by simp
qed

section \<open>Files of size zero\<close>

lemma visitArt_zero:
  assumes "info_Size i = 0" and "visitArt E p i f st = (r, st')"
  shows "\<exists>cs. st' = st\<lparr>db := (db st)\<lparr>calls := cs\<rparr>\<rparr> \<and> r = None"
  using assms
  by (auto simp: visitArt_def store_defs Let_def split: option.splits sum.splits if_splits)

lemma visitSong_zero:
  assumes "info_Size i = 0" and "visitSong E p i f st = (r, st')"
  shows "\<exists>cs. st' = st\<lparr>db := (db st)\<lparr>calls := cs\<rparr>\<rparr>
       \<and> ((\<exists>tf s0. tagRead E p = Inr tf \<and> songFromFile E tf = Inr s0) \<longrightarrow> r = None)"
proof (cases "tagRead E p")
  case (Inl e)
  with assms show ?thesis by (auto simp: visitSong_def sysCall_def logCall_def errOf_def)
next
  case (Inr tf)
  with assms show ?thesis
    by (cases "songFromFile E tf") (auto simp: visitSong_def sysCall_def logCall_def errOf_def)
qed

lemma walkFn_zero_size:
  assumes "info_Size i = 0" and "walkFn E halted (p, Some i) st = (r, st')"
  shows "Songs (db st') = Songs (db st) \<and> Arts (db st') = Arts (db st)
       \<and> Artists (db st') = Artists (db st) \<and> Albums (db st') = Albums (db st)
       \<and> artFiles st' = artFiles st \<and> artCount st' = artCount st
       \<and> songCount st' = songCount st \<and> songUpdateCount st' = songUpdateCount st
       \<and> artistCount st' = artistCount st \<and> albumCount st' = albumCount st
       \<and> (\<forall>f st1. \<not> halted \<and> resolveFolder E p i st = (Continue f, st1)
              \<and> (path_Ext p \<in> artSet E \<or> path_Ext p \<notin> mediaSet E
                  \<or> (\<exists>tf s0. tagRead E p = Inr tf \<and> songFromFile E tf = Inr s0))
            \<longrightarrow> r = None)"
proof (cases halted)
  case True
  with assms(2) show ?thesis by (simp add: walkFn_def)
next
  case False
  obtain x st1 where rf: "resolveFolder E p i st = (x, st1)" by (cases "resolveFolder E p i st")
  note fr = resolveFolder_frame [OF rf]
  show ?thesis
  proof (cases x)
    case (Return r')
    with assms(2) False rf fr show ?thesis by (simp add: walkFn_def)
  next
    case (Continue f)
    let ?st2 = "st1\<lparr>folderCache := (folderCache st1)(folder_Path f \<mapsto> f)\<rparr>"
    have unf: "walkFn E halted (p, Some i) st =
        (if path_Ext p \<notin> mediaSet E \<and> path_Ext p \<notin> artSet E then (None, ?st2)
         else if path_Ext p \<in> artSet E then visitArt E p i f ?st2
         else visitSong E p i f ?st2)"
      using False rf Continue by (simp add: walkFn_def Let_def)
    show ?thesis
    proof (cases "path_Ext p \<notin> mediaSet E \<and> path_Ext p \<notin> artSet E")
      case True
      with unf assms(2) have "r = None" "st' = ?st2" by simp_all
      with fr show ?thesis by simp
    next
      case False
      note nm = this
      show ?thesis
      proof (cases "path_Ext p \<in> artSet E")
        case True
        with unf assms(2) have "visitArt E p i f ?st2 = (r, st')" by simp
        from visitArt_zero [OF assms(1) this]
        obtain cs where "st' = ?st2\<lparr>db := (db ?st2)\<lparr>calls := cs\<rparr>\<rparr>" "r = None" by blast
        then have "Songs (db st') = Songs (db st1) \<and> Arts (db st') = Arts (db st1)
            \<and> Artists (db st') = Artists (db st1) \<and> Albums (db st') = Albums (db st1)
            \<and> artFiles st' = artFiles st1 \<and> artCount st' = artCount st1
            \<and> songCount st' = songCount st1 \<and> songUpdateCount st' = songUpdateCount st1
            \<and> artistCount st' = artistCount st1 \<and> albumCount st' = albumCount st1 \<and> r = None"
          by simp
        with fr show ?thesis by simp
      next
        case na: False
        with nm unf assms(2) have vs: "visitSong E p i f ?st2 = (r, st')" by simp
        from visitSong_zero [OF assms(1) this]
        obtain cs where eq: "st' = ?st2\<lparr>db := (db ?st2)\<lparr>calls := cs\<rparr>\<rparr>"
          and ok: "(\<exists>tf s0. tagRead E p = Inr tf \<and> songFromFile E tf = Inr s0) \<longrightarrow> r = None"
          by blast
        from eq have "Songs (db st') = Songs (db st1) \<and> Arts (db st') = Arts (db st1)
            \<and> Artists (db st') = Artists (db st1) \<and> Albums (db st') = Albums (db st1)
            \<and> artFiles st' = artFiles st1 \<and> artCount st' = artCount st1
            \<and> songCount st' = songCount st1 \<and> songUpdateCount st' = songUpdateCount st1
            \<and> artistCount st' = artistCount st1 \<and> albumCount st' = albumCount st1"
          by simp
        with fr ok na nm show ?thesis by auto
      qed
    qed
  qed
qed

lemma list_all_rows_insert:
  "list_all P (rows (tbl_insert r t)) \<longleftrightarrow> list_all P (rows t) \<and> P (r\<lparr>ID := Suc (length t)\<rparr>)"
  by (simp add: rows_insert)

lemma list_all_rows_update:
  "list_all P (rows t) \<Longrightarrow> P r \<Longrightarrow> list_all P (rows (tbl_update r t))"
  by (auto simp: rows_update list_all_iff)

lemma sizesPositive_cong:
  "Songs w' = Songs w \<Longrightarrow> Arts w' = Arts w \<Longrightarrow> sizesPositive w' = sizesPositive w"
  by (simp add: sizesPositive_def)

lemma visitArt_sizes:
  assumes "sizesPositive (db st)" and "0 \<le> info_Size i" and "visitArt E p i f st = (r, st')"
  shows "sizesPositive (db st')"
  using assms
  by (auto simp: visitArt_def store_defs Let_def sizesPositive_def list_all_rows_insert
           split: option.splits sum.splits if_splits)

lemma resolveSong_sizes:
  assumes "sizesPositive (db st)" and "0 < song_FileSize s"
  shows "sizesPositive (db (resolveSong E s st))"
  using assms
  by (auto simp: resolveSong_def store_defs Let_def sizesPositive_def list_all_rows_insert
           intro!: list_all_rows_update
           split: option.splits sum.splits if_splits prod.splits)

lemma visitSong_sizes:
  assumes "sizesPositive (db st)" and "0 \<le> info_Size i" and "visitSong E p i f st = (r, st')"
  shows "sizesPositive (db st')"
proof (cases "tagRead E p")
  case (Inl e)
  with assms show ?thesis
    by (auto simp: visitSong_def sysCall_def logCall_def errOf_def sizesPositive_def)
next
  case (Inr tf)
  note tr = this
  show ?thesis
  proof (cases "songFromFile E tf")
    case (Inl e)
    with assms tr show ?thesis
      by (auto simp: visitSong_def sysCall_def logCall_def errOf_def sizesPositive_def)
  next
    case (Inr s0)
    let ?w2 = "logCall (SongFromFile p) None (logCall (TagRead p) None (db st))"
    have p2: "sizesPositive ?w2" using assms(1) by (simp add: sizesPositive_def logCall_def)
    show ?thesis
    proof (cases "info_Size i = 0")
      case True
      with assms tr Inr p2 show ?thesis
        by (auto simp: visitSong_def sysCall_def errOf_def)
    next
      case False
      note sz = this
      show ?thesis
      proof (cases "FileTypeMap E (name_Ext (info_Name i))")
        case None
        with assms tr Inr p2 sz show ?thesis
          by (auto simp: visitSong_def sysCall_def errOf_def)
      next
        case (Some ft)
        let ?s3 = "s0\<lparr>song_FileName := p, song_FileSize := info_Size i,
                       song_LastModified := info_ModTime i, song_FolderID := ID f,
                       song_FileTypeID := ft\<rparr>"
        obtain ar st1 where ra: "resolveArtist E ?s3 (st\<lparr>db := ?w2\<rparr>) = (ar, st1)"
          by (cases "resolveArtist E ?s3 (st\<lparr>db := ?w2\<rparr>)")
        obtain al st2 where rb: "resolveAlbum E ?s3 ar st1 = (al, st2)"
          by (cases "resolveAlbum E ?s3 ar st1")
        let ?s4 = "?s3\<lparr>song_ArtistID := ID ar, song_AlbumID := ID al\<rparr>"
        have res: "st' = resolveSong E ?s4 st2"
          using assms(3) tr Inr sz Some ra rb
          by (simp add: visitSong_def sysCall_def errOf_def Let_def)
        have "sizesPositive (db st2)"
          using p2 resolveArtist_frame [OF ra] resolveAlbum_frame [OF rb]
          by (simp add: sizesPositive_def)
        moreover have "0 < song_FileSize ?s4" using sz assms(2) by simp
        ultimately show ?thesis unfolding res by (rule resolveSong_sizes)
      qed
    qed
  qed
qed

lemma walkFn_sizes:
  assumes "sizesPositive (db st)"
      and "case snd e of None \<Rightarrow> True | Some i \<Rightarrow> 0 \<le> info_Size i"
      and "walkFn E h e st = (r, st')"
  shows "sizesPositive (db st')"
proof (cases "h \<or> snd e = None")
  case True
  then have "st' = st" using assms(3) by (auto simp: walkFn_def split: prod.splits if_splits)
  with assms(1) show ?thesis by simp
next
  case False
  then obtain p i where e: "e = (p, Some i)" and h: "\<not> h" by (cases e) auto
  have nn: "0 \<le> info_Size i" using assms(2) e by simp
  obtain x st1 where rf: "resolveFolder E p i st = (x, st1)" by (cases "resolveFolder E p i st")
  have p1: "sizesPositive (db st1)"
    using assms(1) resolveFolder_frame [OF rf] by (simp add: sizesPositive_def)
  show ?thesis
  proof (cases x)
    case (Return r')
    with assms(3) e h rf have "st' = st1" by (simp add: walkFn_def)
    with p1 show ?thesis by simp
  next
    case (Continue f)
    let ?st2 = "st1\<lparr>folderCache := (folderCache st1)(folder_Path f \<mapsto> f)\<rparr>"
    have p2: "sizesPositive (db ?st2)" using p1 by simp
    have unf: "walkFn E h e st =
        (if path_Ext p \<notin> mediaSet E \<and> path_Ext p \<notin> artSet E then (None, ?st2)
         else if path_Ext p \<in> artSet E then visitArt E p i f ?st2
         else visitSong E p i f ?st2)"
      using e h rf Continue by (simp add: walkFn_def Let_def)
    show ?thesis
    proof (cases "path_Ext p \<notin> mediaSet E \<and> path_Ext p \<notin> artSet E")
      case True
      with unf assms(3) have "st' = ?st2" by simp
      with p2 show ?thesis by simp
    next
      case False
      note nm = this
      show ?thesis
      proof (cases "path_Ext p \<in> artSet E")
        case True
        with unf assms(3) have "visitArt E p i f ?st2 = (r, st')" by simp
        from visitArt_sizes [OF p2 nn this] show ?thesis .
      next
        case na: False
        with nm unf assms(3) have "visitSong E p i f ?st2 = (r, st')" by simp
        from visitSong_sizes [OF p2 nn this] show ?thesis .
      qed
    qed
  qed
qed

lemma walkEntries_sizes:
  "sizesPositive (db st) \<Longrightarrow> sizesNonNegative es \<Longrightarrow> walkEntries E h k es st = (r, st') \<Longrightarrow>
     sizesPositive (db st')"
proof (induction es arbitrary: k st)
  case Nil
  then show ?case by simp
next
  case (Cons e es)
  obtain r1 st1 where w: "walkFn E (h k) e st = (r1, st1)" by (cases "walkFn E (h k) e st")
  have e: "case snd e of None \<Rightarrow> True | Some i \<Rightarrow> 0 \<le> info_Size i" and es: "sizesNonNegative es"
    using Cons.prems(2) by (simp_all add: sizesNonNegative_def)
  have p1: "sizesPositive (db st1)" by (rule walkFn_sizes [OF Cons.prems(1) e w])
  show ?case
  proof (cases r1)
    case (Some e1)
    with Cons.prems(3) w have "st' = st1" by simp
    with p1 show ?thesis by simp
  next
    case None
    with Cons.prems(3) w have "walkEntries E h (Suc k) es st1 = (r, st')" by simp
    from Cons.IH [OF p1 es this] show ?thesis .
  qed
qed

lemma updateSongsArt_sizes:
  "sizesPositive w \<Longrightarrow> list_all (\<lambda>s. 0 < song_FileSize s) songs \<Longrightarrow>
     updateSongsArt E a songs w = (r, w') \<Longrightarrow> sizesPositive w'"
proof (induction songs arbitrary: w)
  case Nil
  then show ?case by simp
next
  case (Cons s songs)
  obtain r1 w1 where u: "Song_Update E (ArtSongUpdate (ID s)) (s\<lparr>song_ArtID := a\<rparr>) w = (r1, w1)"
    by (cases "Song_Update E (ArtSongUpdate (ID s)) (s\<lparr>song_ArtID := a\<rparr>) w")
  have p1: "sizesPositive w1"
    using u Cons.prems(1,2)
    by (auto simp: store_defs sizesPositive_def intro!: list_all_rows_update split: option.splits)
  show ?case
  proof (cases r1)
    case (Inl e)
    with Cons.prems(3) u have "w' = w1" by simp
    with p1 show ?thesis by simp
  next
    case (Inr u')
    with Cons.prems(3) u have "updateSongsArt E a songs w1 = (r, w')" by simp
    from Cons.IH [OF p1 _ this] Cons.prems(2) show ?thesis by simp
  qed
qed

lemma artPass_sizes:
  "sizesPositive w \<Longrightarrow> artPass E pairs w = (r, w') \<Longrightarrow> sizesPositive w'"
proof (induction pairs arbitrary: w)
  case Nil
  then show ?case by simp
next
  case (Cons a pairs)
  obtain r1 w1 where q: "DB_SongsForFolder E (fst a) w = (r1, w1)"
    by (cases "DB_SongsForFolder E (fst a) w")
  have p1: "sizesPositive w1"
    using q Cons.prems(1) by (auto simp: store_defs sizesPositive_def split: option.splits)
  show ?case
  proof (cases r1)
    case (Inl e)
    with Cons.prems(2) q have "w' = w1" by simp
    with p1 show ?thesis by simp
  next
    case (Inr songs)
    have sp: "list_all (\<lambda>s. 0 < song_FileSize s) songs"
      using q Inr Cons.prems(1)
      by (auto simp: store_defs sizesPositive_def list_all_iff split: option.splits)
    obtain r2 w2 where u: "updateSongsArt E (snd a) songs w1 = (r2, w2)"
      by (cases "updateSongsArt E (snd a) songs w1")
    have p2: "sizesPositive w2" by (rule updateSongsArt_sizes [OF p1 sp u])
    show ?thesis
    proof (cases r2)
      case (Some e)
      with Cons.prems(2) q Inr u have "w' = w2" by simp
      with p2 show ?thesis by simp
    next
      case None
      with Cons.prems(2) q Inr u have "artPass E pairs w2 = (r, w')" by simp
      from Cons.IH [OF p2 this] show ?thesis .
    qed
  qed
qed

lemma MediaScan_sizes:
  assumes "sizesPositive w" and "sizesNonNegative (walk E root)"
  shows "sizesPositive (snd (MediaScan E root h w))"
proof -
  obtain r st where we: "walkEntries E h 0 (walk E root) (newScan w) = (r, st)"
    by (cases "walkEntries E h 0 (walk E root) (newScan w)")
  have "sizesPositive (db (newScan w))" using assms(1) by (simp add: newScan_def)
  from walkEntries_sizes [OF this assms(2) we] have p: "sizesPositive (db st)" .
  show ?thesis
  proof (cases r)
    case (Some e)
    with we p show ?thesis by (simp add: MediaScan_def)
  next
    case None
    obtain r2 w2 where ap: "artPass E (artFiles st) (db st) = (r2, w2)"
      by (cases "artPass E (artFiles st) (db st)")
    from artPass_sizes [OF p ap] have "sizesPositive w2" .
    with None we ap show ?thesis by (cases r2) (simp_all add: MediaScan_def)
  qed
qed

text \<open>
  C7 (amended). The claim has every file of size zero skipped with the scan going on
  without error; the source reads the tags of an audio file before it looks at the size
  (lines 185-210), so a failing tag read still ends the scan. For every visit of a file
  of size zero, whatever its tags, its extension, the faults and the cancellation: the
  song, art, artist and album tables, the list of art pairs and the counters of art,
  songs, song updates, artists and albums are unchanged, so no Song and no Art record is
  created; when the visit is not halted, the folder of the file resolves, and the file is
  an art file, no media file, or an audio file whose tags are read, the visit returns no
  error. And a scan over files of non-negative size keeps every song and art row of the
  store at a positive file size.
\<close>

theorem zero_size_file_not_indexed:
  assumes "info_Size i = 0" and "walkFn E halted (p, Some i) st = (r, st')"
  shows "Songs (db st') = Songs (db st) \<and> Arts (db st') = Arts (db st)
       \<and> Artists (db st') = Artists (db st) \<and> Albums (db st') = Albums (db st)
       \<and> artFiles st' = artFiles st \<and> artCount st' = artCount st
       \<and> songCount st' = songCount st \<and> songUpdateCount st' = songUpdateCount st
       \<and> artistCount st' = artistCount st \<and> albumCount st' = albumCount st
       \<and> (\<forall>f st1. \<not> halted \<and> resolveFolder E p i st = (Continue f, st1)
              \<and> (path_Ext p \<in> artSet E \<or> path_Ext p \<notin> mediaSet E
                  \<or> (\<exists>tf s0. tagRead E p = Inr tf \<and> songFromFile E tf = Inr s0))
            \<longrightarrow> r = None)
       \<and> (\<forall>root haltWalk w. sizesPositive w \<and> sizesNonNegative (walk E root)
            \<longrightarrow> sizesPositive (snd (MediaScan E root haltWalk w)))"
  using walkFn_zero_size [OF assms] MediaScan_sizes by blast

text \<open>
  Counterexample to C7 as stated: \<open>/music/empty.flac\<close> has size zero and the tag library
  fails on it; the file is not skipped, the scan ends with the tag error.
\<close>

theorem zero_size_tag_failure_counterexample:
  "info_Size (regInfo ''empty.flac'' 0 60) = 0
   \<and> MediaScan zeroFileEnv [''music''] (\<lambda>k. False) emptyWorld =
       (Inl (ErrTagRead [''music'', ''empty.flac''] (Failure ''taglib: invalid file'')),
        emptyWorld\<lparr>Folders := [Some \<lparr>ID = 1, folder_ParentID = 0, folder_Title = ''music'',
                                      folder_Path = [''music'']\<rparr>],
          calls := [(FolderLoad [''music''], Some ErrNoRows), (ReadDir [''music''], None),
                    (ParentFolderLoad [], Some ErrNoRows), (FolderSave [''music''], None),
                    (TagRead [''music'', ''empty.flac''],
                     Some (Failure ''taglib: invalid file''))]\<rparr>)"
  by code_simp

text \<open>
  Witness for C7: the same file with readable tags is skipped without error and leaves
  no song and no art row.
\<close>

theorem zero_size_file_not_indexed_witness:
  "info_Size (regInfo ''empty.flac'' 0 60) = 0
   \<and> fst (walkFn taggedZeroEnv False ([''music'', ''empty.flac''], Some (regInfo ''empty.flac'' 0 60))
             (newScan emptyWorld)) = None
   \<and> Songs (db (snd (walkFn taggedZeroEnv False
         ([''music'', ''empty.flac''], Some (regInfo ''empty.flac'' 0 60)) (newScan emptyWorld)))) = []
   \<and> Arts (db (snd (walkFn taggedZeroEnv False
         ([''music'', ''empty.flac''], Some (regInfo ''empty.flac'' 0 60)) (newScan emptyWorld)))) = []
   \<and> songCount (snd (walkFn taggedZeroEnv False
         ([''music'', ''empty.flac''], Some (regInfo ''empty.flac'' 0 60)) (newScan emptyWorld))) = 0
   \<and> sizesPositive emptyWorld
   \<and> sizesNonNegative (walk taggedZeroEnv [''music''])
   \<and> sizesPositive (snd (MediaScan taggedZeroEnv [''music''] (\<lambda>k. False) emptyWorld))"
proof -
  let ?p = "[''music'', ''empty.flac'']"
  let ?i = "regInfo ''empty.flac'' 0 60"
  let ?W = "walkFn taggedZeroEnv False (?p, Some ?i) (newScan emptyWorld)"
  have h1: "info_Size ?i = 0" by (simp add: regInfo_def)
  have h2: "?W = (fst ?W, snd ?W)" by simp
  have rf: "\<exists>f st1. resolveFolder taggedZeroEnv ?p ?i (newScan emptyWorld) = (Continue f, st1)"
    by (simp add: resolveFolder_def createFolder_def saveFolder_def store_defs Let_def
          taggedZeroEnv_def zeroFileEnv_def quietEnv_def newScan_def emptyWorld_def
          regInfo_def new_Folder_def path_Dir_def tbl_find_def rows_def)
  have tr: "\<exists>tf s0. tagRead taggedZeroEnv ?p = Inr tf \<and> songFromFile taggedZeroEnv tf = Inr s0"
    by (simp add: taggedZeroEnv_def zeroFileEnv_def quietEnv_def songOfTags_def)
  have sp: "sizesPositive emptyWorld"
    by (simp add: sizesPositive_def emptyWorld_def rows_def)
  have nn: "sizesNonNegative (walk taggedZeroEnv [''music''])"
    by (simp add: sizesNonNegative_def taggedZeroEnv_def zeroFileEnv_def dirInfo_def regInfo_def)
  note t = zero_size_file_not_indexed [OF h1 h2]
  from t have a: "Songs (db (snd ?W)) = Songs (db (newScan emptyWorld))"
      "Arts (db (snd ?W)) = Arts (db (newScan emptyWorld))"
      "songCount (snd ?W) = songCount (newScan emptyWorld)" by blast+
  from t rf tr have b: "fst ?W = None" by blast
  from t sp nn have c: "sizesPositive (snd (MediaScan taggedZeroEnv [''music''] (\<lambda>k. False) emptyWorld))"
    by blast
  from a b c h1 sp nn show ?thesis by (simp add: newScan_def emptyWorld_def)
qed

section \<open>The deferred art pass\<close>

lemma find_map_same:
  "(\<And>x. x \<in> set xs \<Longrightarrow> P (g x) = P x) \<Longrightarrow> find P (map g xs) = map_option g (find P xs)"
  by (induction xs) auto

lemma rows_distinct': "distinct (rows t)"
  using rows_distinct [of t] by (rule distinct_map [THEN iffD1, THEN conjunct1])

lemma Song_Update_ok:
  assumes "Song_Update E c s w = (Inr u, w')"
  shows "rows (Songs w') = map (\<lambda>x. if ID x = ID s then s else x) (rows (Songs w))
       \<and> Folders w' = Folders w \<and> Artists w' = Artists w \<and> Albums w' = Albums w
       \<and> Arts w' = Arts w \<and> calls w' = calls w @ [(c, None)]"
  using assms by (auto simp: store_defs rows_update split: option.splits)

lemma Song_Update_failed:
  assumes "Song_Update E c s w = (Inl e, w')"
  shows "w' = logCall c (Some e) w"
  using assms by (auto simp: store_defs split: option.splits)

lemma updateSongsArt_rows:
  "distinct (map ID ss) \<Longrightarrow> set ss \<subseteq> set (rows (Songs w)) \<Longrightarrow>
   updateSongsArt E a ss w = (r, w') \<Longrightarrow>
     \<exists>dn. set dn \<subseteq> set ss \<and> (r = None \<longrightarrow> set dn = set ss)
        \<and> rows (Songs w') = map (\<lambda>x. if x \<in> set dn then x\<lparr>song_ArtID := a\<rparr> else x) (rows (Songs w))"
proof (induction ss arbitrary: w)
  case Nil
  then have "set [] \<subseteq> set ([] :: song list) \<and> (r = None \<longrightarrow> set [] = set ([] :: song list))
      \<and> rows (Songs w') = map (\<lambda>x. if x \<in> set [] then x\<lparr>song_ArtID := a\<rparr> else x) (rows (Songs w))"
    by simp
  then show ?case by blast
next
  case (Cons s ss)
  let ?c = "ArtSongUpdate (ID s)"
  obtain r1 w1 where u: "Song_Update E ?c (s\<lparr>song_ArtID := a\<rparr>) w = (r1, w1)"
    by (cases "Song_Update E ?c (s\<lparr>song_ArtID := a\<rparr>) w")
  show ?case
  proof (cases r1)
    case (Inl e)
    with Cons.prems(3) u have "r = Some e" "w' = w1" by simp_all
    moreover have "Songs w1 = Songs w"
      using Song_Update_failed [OF u [unfolded Inl]] by (simp add: logCall_def)
    ultimately have "set [] \<subseteq> set (s # ss) \<and> (r = None \<longrightarrow> set [] = set (s # ss))
      \<and> rows (Songs w') = map (\<lambda>x. if x \<in> set [] then x\<lparr>song_ArtID := a\<rparr> else x) (rows (Songs w))"
      by simp
    then show ?thesis by blast
  next
    case (Inr u')
    have sin: "s \<in> set (rows (Songs w))" using Cons.prems(2) by simp
    have uniq: "\<And>x. x \<in> set (rows (Songs w)) \<Longrightarrow> (ID x = ID s) = (x = s)"
      using rows_ID_eq [OF _ sin] by blast
    have rows1: "rows (Songs w1) = map (\<lambda>x. if x = s then x\<lparr>song_ArtID := a\<rparr> else x) (rows (Songs w))"
      using Song_Update_ok [OF u [unfolded Inr]] uniq by (auto intro: map_cong)
    have d: "distinct (map ID ss)" and nid: "ID s \<notin> ID ` set ss" using Cons.prems(1) by simp_all
    have sub: "set ss \<subseteq> set (rows (Songs w1))"
    proof
      fix y assume y: "y \<in> set ss"
      then have "y \<in> set (rows (Songs w))" "y \<noteq> s" using Cons.prems(2) nid by auto
      then show "y \<in> set (rows (Songs w1))" unfolding rows1 by force
    qed
    from Cons.prems(3) u Inr have "updateSongsArt E a ss w1 = (r, w')" by simp
    from Cons.IH [OF d sub this] obtain dn where
      dn: "set dn \<subseteq> set ss" "r = None \<longrightarrow> set dn = set ss"
      "rows (Songs w') = map (\<lambda>x. if x \<in> set dn then x\<lparr>song_ArtID := a\<rparr> else x) (rows (Songs w1))"
      by blast
    have "\<And>y. y \<in> set dn \<Longrightarrow> ID y \<noteq> ID s"
      using dn(1) nid by (metis imageI subsetD)
    then have nin: "s\<lparr>song_ArtID := a\<rparr> \<notin> set dn" "s \<notin> set dn"
      by force+
    have "rows (Songs w') =
        map (\<lambda>x. if x \<in> set (s # dn) then x\<lparr>song_ArtID := a\<rparr> else x) (rows (Songs w))"
      unfolding dn(3) rows1 using nin by (auto intro: map_cong)
    moreover have "set (s # dn) \<subseteq> set (s # ss)" "r = None \<longrightarrow> set (s # dn) = set (s # ss)"
      using dn(1,2) by auto
    ultimately show ?thesis by blast
  qed
qed

lemma SongsForFolder_ok:
  assumes "DB_SongsForFolder E f w = (Inr songs, w1)"
  shows "songs = filter (\<lambda>s. song_FolderID s = f) (rows (Songs w))
       \<and> w1 = logCall (SongsForFolder f) None w"
  using assms by (auto simp: store_defs split: option.splits)

lemma SongsForFolder_failed:
  assumes "DB_SongsForFolder E f w = (Inl e, w1)"
  shows "w1 = logCall (SongsForFolder f) (Some e) w"
  using assms by (auto simp: store_defs split: option.splits)

lemma applyPair_rows:
  assumes "DB_SongsForFolder E f w = (Inr songs, w1)"
      and "updateSongsArt E a songs w1 = (r, w2)"
  shows "\<exists>dn. set dn \<subseteq> {x \<in> set (rows (Songs w)). song_FolderID x = f}
          \<and> (r = None \<longrightarrow> set dn = {x \<in> set (rows (Songs w)). song_FolderID x = f})
          \<and> rows (Songs w2) = map (\<lambda>x. if x \<in> set dn then x\<lparr>song_ArtID := a\<rparr> else x) (rows (Songs w))"
proof -
  note q = SongsForFolder_ok [OF assms(1)]
  have s1: "Songs w1 = Songs w" using q by (simp add: logCall_def)
  have d: "distinct (map ID songs)"
    using q rows_distinct [of "Songs w"] by (simp add: distinct_map_filter)
  have sub: "set songs \<subseteq> set (rows (Songs w1))" using q s1 by auto
  from updateSongsArt_rows [OF d sub assms(2)] q s1 show ?thesis by simp
qed


lemma artPass_changes:
  "artPass E pairs w = (r, w') \<Longrightarrow>
     \<exists>g. rows (Songs w') = map g (rows (Songs w))
        \<and> (\<forall>x. g x = x\<lparr>song_ArtID := song_ArtID (g x)\<rparr>)
        \<and> (\<forall>x. song_FolderID x \<notin> fst ` set pairs \<longrightarrow> g x = x)"
proof (induction pairs arbitrary: w)
  case Nil
  then have "rows (Songs w') = map id (rows (Songs w))
        \<and> (\<forall>x::song. id x = x\<lparr>song_ArtID := song_ArtID (id x)\<rparr>)
        \<and> (\<forall>x::song. song_FolderID x \<notin> fst ` set ([] :: (nat \<times> nat) list) \<longrightarrow> id x = x)"
    by simp
  then show ?case by blast
next
  case (Cons pr pairs)
  obtain q w1 where sf: "DB_SongsForFolder E (fst pr) w = (q, w1)"
    by (cases "DB_SongsForFolder E (fst pr) w")
  show ?case
  proof (cases q)
    case (Inl e)
    with Cons.prems sf have "w' = w1" by simp
    with SongsForFolder_failed [OF sf [unfolded Inl]]
    have "rows (Songs w') = map id (rows (Songs w))
        \<and> (\<forall>x::song. id x = x\<lparr>song_ArtID := song_ArtID (id x)\<rparr>)
        \<and> (\<forall>x::song. song_FolderID x \<notin> fst ` set (pr # pairs) \<longrightarrow> id x = x)"
      by (simp add: logCall_def)
    then show ?thesis by blast
  next
    case (Inr songs)
    obtain r2 w2 where u: "updateSongsArt E (snd pr) songs w1 = (r2, w2)"
      by (cases "updateSongsArt E (snd pr) songs w1")
    from applyPair_rows [OF sf [unfolded Inr] u] obtain dn where
      dn: "set dn \<subseteq> {x \<in> set (rows (Songs w)). song_FolderID x = fst pr}"
        "rows (Songs w2) = map (\<lambda>x. if x \<in> set dn then x\<lparr>song_ArtID := snd pr\<rparr> else x) (rows (Songs w))"
      by blast
    let ?h = "\<lambda>x. if x \<in> set dn then x\<lparr>song_ArtID := snd pr\<rparr> else x"
    have h1: "\<And>x. ?h x = x\<lparr>song_ArtID := song_ArtID (?h x)\<rparr>" by simp
    have h2: "\<And>x. song_FolderID x \<noteq> fst pr \<Longrightarrow> ?h x = x" using dn(1) by auto
    obtain g' where g': "rows (Songs w') = map g' (rows (Songs w2))"
        "\<forall>x. g' x = x\<lparr>song_ArtID := song_ArtID (g' x)\<rparr>"
        "\<forall>x. song_FolderID x \<notin> fst ` set pairs \<longrightarrow> g' x = x"
    proof (cases r2)
      case (Some e)
      with Cons.prems sf Inr u have "w' = w2" by simp
      then have "rows (Songs w') = map id (rows (Songs w2))
        \<and> (\<forall>x::song. id x = x\<lparr>song_ArtID := song_ArtID (id x)\<rparr>)
        \<and> (\<forall>x::song. song_FolderID x \<notin> fst ` set pairs \<longrightarrow> id x = x)" by simp
      then show ?thesis using that by blast
    next
      case None
      with Cons.prems sf Inr u have "artPass E pairs w2 = (r, w')" by simp
      from Cons.IH [OF this] show ?thesis using that by blast
    qed
    have c1: "rows (Songs w') = map (g' \<circ> ?h) (rows (Songs w))"
      using g'(1) dn(2) by simp
    have c2: "\<forall>x. (g' \<circ> ?h) x = x\<lparr>song_ArtID := song_ArtID ((g' \<circ> ?h) x)\<rparr>"
    proof
      fix x :: song
      have "g' (?h x) = (?h x)\<lparr>song_ArtID := song_ArtID (g' (?h x))\<rparr>" using g'(2) by blast
      also have "\<dots> = x\<lparr>song_ArtID := song_ArtID (g' (?h x))\<rparr>" by simp
      finally show "(g' \<circ> ?h) x = x\<lparr>song_ArtID := song_ArtID ((g' \<circ> ?h) x)\<rparr>" by simp
    qed
    have c3: "\<forall>x. song_FolderID x \<notin> fst ` set (pr # pairs) \<longrightarrow> (g' \<circ> ?h) x = x"
    proof (intro allI impI)
      fix x :: song assume a: "song_FolderID x \<notin> fst ` set (pr # pairs)"
      then have "?h x = x" using h2 by simp
      moreover from a have "g' x = x" using g'(3) by simp
      ultimately show "(g' \<circ> ?h) x = x" by simp
    qed
    from c1 c2 c3 show ?thesis by blast
  qed
qed

lemma walkFn_cases [consumes 1, case_names stop ret skip art song]:
  assumes "walkFn E h e st = (r, st')"
  obtains "st' = st" "r \<noteq> None" "h \<or> snd e = None"
    | p i where "\<not> h" "e = (p, Some i)" "resolveFolder E p i st = (Return r, st')"
    | p i f st1 where "\<not> h" "e = (p, Some i)" "resolveFolder E p i st = (Continue f, st1)"
        "path_Ext p \<notin> mediaSet E" "path_Ext p \<notin> artSet E" "r = None"
        "st' = st1\<lparr>folderCache := (folderCache st1)(folder_Path f \<mapsto> f)\<rparr>"
    | p i f st1 where "\<not> h" "e = (p, Some i)" "resolveFolder E p i st = (Continue f, st1)"
        "path_Ext p \<in> artSet E"
        "visitArt E p i f (st1\<lparr>folderCache := (folderCache st1)(folder_Path f \<mapsto> f)\<rparr>) = (r, st')"
    | p i f st1 where "\<not> h" "e = (p, Some i)" "resolveFolder E p i st = (Continue f, st1)"
        "path_Ext p \<in> mediaSet E" "path_Ext p \<notin> artSet E"
        "visitSong E p i f (st1\<lparr>folderCache := (folderCache st1)(folder_Path f \<mapsto> f)\<rparr>) = (r, st')"
proof (cases "h \<or> snd e = None")
  case True
  then have "st' = st \<and> r \<noteq> None"
    using assms by (auto simp: walkFn_def split: prod.splits if_splits)
  with True show ?thesis using that(1) by blast
next
  case False
  then obtain p i where e: "e = (p, Some i)" and h: "\<not> h" by (cases e) auto
  obtain x st1 where rf: "resolveFolder E p i st = (x, st1)" by (cases "resolveFolder E p i st")
  show ?thesis
  proof (cases x)
    case (Return r')
    with assms e h rf have "r = r'" "st' = st1" by (simp_all add: walkFn_def)
    with Return rf e h show ?thesis using that(2) by blast
  next
    case (Continue f)
    let ?st2 = "st1\<lparr>folderCache := (folderCache st1)(folder_Path f \<mapsto> f)\<rparr>"
    have unf: "walkFn E h e st =
        (if path_Ext p \<notin> mediaSet E \<and> path_Ext p \<notin> artSet E then (None, ?st2)
         else if path_Ext p \<in> artSet E then visitArt E p i f ?st2
         else visitSong E p i f ?st2)"
      using e h rf Continue by (simp add: walkFn_def Let_def)
    show ?thesis
    proof (cases "path_Ext p \<notin> mediaSet E \<and> path_Ext p \<notin> artSet E")
      case True
      with unf assms have "r = None" "st' = ?st2" by simp_all
      with True rf Continue e h show ?thesis using that(3) by blast
    next
      case False
      note nm = this
      show ?thesis
      proof (cases "path_Ext p \<in> artSet E")
        case True
        with unf assms have "visitArt E p i f ?st2 = (r, st')" by simp
        with True rf Continue e h show ?thesis using that(4) by blast
      next
        case na: False
        with nm unf assms have "visitSong E p i f ?st2 = (r, st')" by simp
        with na nm rf Continue e h show ?thesis using that(5) by blast
      qed
    qed
  qed
qed












section \<open>Rescanning an unchanged tree\<close>

lemma tbl_find_SomeD: "tbl_find P t = Some x \<Longrightarrow> P x"
  unfolding tbl_find_def find_Some_iff by blast

lemma tbl_find_rows: "tbl_find P t = Some x \<Longrightarrow> x \<in> set (rows t)"
  unfolding tbl_find_def find_Some_iff by (metis nth_mem)

lemma stable_refl: "stable t t"
  by (simp add: stable_def)

lemma stable_trans: "stable t t1 \<Longrightarrow> stable t1 t2 \<Longrightarrow> stable t t2"
  by (simp add: stable_def)

lemma stable_insert: "stable t (tbl_insert r t)"
  by (simp add: stable_def tbl_find_insert)

lemma songsGrow_refl: "songsGrow t t"
  by (simp add: songsGrow_def)

lemma songsGrow_trans: "songsGrow t t1 \<Longrightarrow> songsGrow t1 t2 \<Longrightarrow> songsGrow t t2"
  unfolding songsGrow_def by (meson order_trans)

lemma songsGrow_stable: "stable t t' \<Longrightarrow> songsGrow t t'"
  unfolding songsGrow_def stable_def by (metis order_refl)

lemma songsGrow_map:
  assumes rows: "rows t' = map g (rows t)"
      and name: "\<And>x. x \<in> set (rows t) \<Longrightarrow> song_FileName (g x) = song_FileName x"
      and time: "\<And>x. x \<in> set (rows t) \<Longrightarrow> song_LastModified x \<le> song_LastModified (g x)"
  shows "songsGrow t t'"
  unfolding songsGrow_def
proof (intro allI impI)
  fix p s assume f: "tbl_find (\<lambda>r. song_FileName r = p) t = Some s"
  have "tbl_find (\<lambda>r. song_FileName r = p) t' = map_option g (tbl_find (\<lambda>r. song_FileName r = p) t)"
    unfolding tbl_find_def rows by (rule find_map_same) (simp add: name)
  with f have "tbl_find (\<lambda>r. song_FileName r = p) t' = Some (g s)" by simp
  moreover have "song_LastModified s \<le> song_LastModified (g s)"
    using time tbl_find_rows [OF f] by blast
  ultimately show "\<exists>s'. tbl_find (\<lambda>r. song_FileName r = p) t' = Some s'
      \<and> song_LastModified s \<le> song_LastModified s'" by blast
qed

lemma keepsAbsent_refl: "keepsAbsent E t t"
  by (simp add: keepsAbsent_def)

lemma keepsAbsent_trans: "keepsAbsent E t t1 \<Longrightarrow> keepsAbsent E t1 t2 \<Longrightarrow> keepsAbsent E t t2"
  by (simp add: keepsAbsent_def)

lemma grows_refl: "grows E w w"
  by (simp add: grows_def stable_refl keepsAbsent_refl songsGrow_refl)

lemma grows_trans: "grows E w w1 \<Longrightarrow> grows E w1 w2 \<Longrightarrow> grows E w w2"
  unfolding grows_def
  by (meson stable_trans keepsAbsent_trans songsGrow_trans)

lemma grows_same:
  "Folders w' = Folders w \<Longrightarrow> Artists w' = Artists w \<Longrightarrow> Albums w' = Albums w \<Longrightarrow>
   Arts w' = Arts w \<Longrightarrow> Songs w' = Songs w \<Longrightarrow> grows E w w'"
  by (simp add: grows_def stable_refl keepsAbsent_refl songsGrow_refl)

lemma settled_grows:
  assumes "settled E w e" and "grows E w w'"
  shows "settled E w' e"
proof -
  from assms(1) obtain i where i: "snd e = Some i" by (auto simp: settled_def split: option.splits)
  let ?fp = "folderOf e"
  have g: "stable (Folders w) (Folders w')" "keepsAbsent E (Folders w) (Folders w')"
      "stable (Artists w) (Artists w')" "stable (Albums w) (Albums w')"
      "stable (Arts w) (Arts w')" "songsGrow (Songs w) (Songs w')"
    using assms(2) by (simp_all add: grows_def)
  show ?thesis
  proof (cases "tbl_find (\<lambda>r. folder_Path r = ?fp) (Folders w)")
    case None
    with assms(1) i have rd: "readDir E ?fp = Inr []" by (simp add: settled_def)
    with None g(2) have "tbl_find (\<lambda>r. folder_Path r = ?fp) (Folders w') = None"
      by (simp add: keepsAbsent_def)
    with rd i show ?thesis by (simp add: settled_def)
  next
    case (Some f)
    with g(1) have f': "tbl_find (\<lambda>r. folder_Path r = ?fp) (Folders w') = Some f"
      by (simp add: stable_def)
    show ?thesis
    proof (cases "path_Ext (fst e) \<notin> mediaSet E \<and> path_Ext (fst e) \<notin> artSet E")
      case True
      with f' i show ?thesis by (simp add: settled_def)
    next
      case False
      note nm = this
      show ?thesis
      proof (cases "path_Ext (fst e) \<in> artSet E")
        case True
        with assms(1) i Some have "tbl_find (\<lambda>r. art_FileName r = fst e) (Arts w) \<noteq> None \<or> info_Size i = 0"
          by (simp add: settled_def)
        then have "tbl_find (\<lambda>r. art_FileName r = fst e) (Arts w') \<noteq> None \<or> info_Size i = 0"
          using g(5) by (auto simp: stable_def)
        with True f' i show ?thesis by (simp add: settled_def)
      next
        case na: False
        with assms(1) i Some nm have ss: "songSettled E w (fst e) i"
          by (auto simp: settled_def)
        have "songSettled E w' (fst e) i"
        proof (cases "tagRead E (fst e)")
          case (Inl x)
          with ss show ?thesis by (simp add: songSettled_def)
        next
          case (Inr tf)
          note tr = this
          show ?thesis
          proof (cases "songFromFile E tf")
            case (Inl x)
            with ss tr show ?thesis by (simp add: songSettled_def)
          next
            case (Inr s0)
            show ?thesis
            proof (cases "info_Size i = 0")
              case True
              with tr Inr show ?thesis by (simp add: songSettled_def)
            next
              case False
              with ss tr Inr obtain ar al s where
                ft: "FileTypeMap E (name_Ext (info_Name i)) \<noteq> None"
                and ar: "tbl_find (\<lambda>r. artist_Title r = song_Artist s0) (Artists w) = Some ar"
                and al: "tbl_find (\<lambda>r. album_ArtistID r = ID ar \<and> album_Title r = song_Album s0)
                         (Albums w) = Some al"
                and s: "tbl_find (\<lambda>r. song_FileName r = fst e) (Songs w) = Some s"
                and t: "info_ModTime i \<le> song_LastModified s"
                by (auto simp: songSettled_def split: option.splits)
              from ar g(3) have ar': "tbl_find (\<lambda>r. artist_Title r = song_Artist s0) (Artists w') = Some ar"
                by (simp add: stable_def)
              from al g(4) have al': "tbl_find (\<lambda>r. album_ArtistID r = ID ar \<and> album_Title r = song_Album s0)
                         (Albums w') = Some al"
                by (simp add: stable_def)
              from s g(6) obtain s' where
                s': "tbl_find (\<lambda>r. song_FileName r = fst e) (Songs w') = Some s'"
                  "song_LastModified s \<le> song_LastModified s'"
                unfolding songsGrow_def by blast
              from tr Inr ft ar' al' s' t show ?thesis by (simp add: songSettled_def)
            qed
          qed
        qed
        with na nm f' i show ?thesis by (simp add: settled_def)
      qed
    qed
  qed
qed

lemma settled_calls: "settled E (w\<lparr>calls := cs\<rparr>) e = settled E w e"
  by (simp add: settled_def songSettled_def cong: option.case_cong sum.case_cong)

lemma cacheOK_grows:
  assumes "cacheOK st" and "grows E (db st) (db st')"
      and "folderCache st' = folderCache st" and "artistCache st' = artistCache st"
      and "albumCache st' = albumCache st"
  shows "cacheOK st'"
  using assms unfolding cacheOK_def grows_def stable_def by simp

lemma resolveFolder_tables:
  assumes "fault E = (\<lambda>c. None)" and "resolveFolder E p i st = (x, st')"
  shows "Folders (db st') = Folders (db st)
       \<or> (\<exists>f a as. Folders (db st') = tbl_insert f (Folders (db st))
            \<and> folder_Path f = folderOf (p, Some i)
            \<and> readDir E (folderOf (p, Some i)) = Inr (a # as)
            \<and> tbl_find (\<lambda>r. folder_Path r = folderOf (p, Some i)) (Folders (db st)) = None)"
  using assms
  by (auto simp: resolveFolder_def createFolder_def saveFolder_def store_defs Let_def
                 new_Folder_def folderOf_def neq_Nil_conv
           split: option.splits sum.splits if_splits prod.splits)

lemma resolveFolder_grows:
  assumes "fault E = (\<lambda>c. None)" and "resolveFolder E p i st = (x, st')"
  shows "grows E (db st) (db st')"
proof -
  note fr = resolveFolder_frame [OF assms(2)]
  from resolveFolder_tables [OF assms] show ?thesis
  proof
    assume "Folders (db st') = Folders (db st)"
    with fr show ?thesis by (simp add: grows_same)
  next
    assume "\<exists>f a as. Folders (db st') = tbl_insert f (Folders (db st))
            \<and> folder_Path f = folderOf (p, Some i)
            \<and> readDir E (folderOf (p, Some i)) = Inr (a # as)
            \<and> tbl_find (\<lambda>r. folder_Path r = folderOf (p, Some i)) (Folders (db st)) = None"
    then obtain f a as where f: "Folders (db st') = tbl_insert f (Folders (db st))"
      "folder_Path f = folderOf (p, Some i)" "readDir E (folderOf (p, Some i)) = Inr (a # as)"
      by blast
    have "keepsAbsent E (Folders (db st)) (Folders (db st'))"
      unfolding keepsAbsent_def f(1) using f(2,3) by (auto simp: tbl_find_insert)
    with fr f(1) show ?thesis
      by (simp add: grows_def stable_insert stable_refl songsGrow_refl)
  qed
qed

lemma resolveFolder_found:
  assumes "fault E = (\<lambda>c. None)" and "cacheOK st" and "resolveFolder E p i st = (x, st')"
  shows "case x of
           Continue f \<Rightarrow>
             tbl_find (\<lambda>r. folder_Path r = folderOf (p, Some i)) (Folders (db st')) = Some f
         | Return r \<Rightarrow>
             r = None \<longrightarrow>
               tbl_find (\<lambda>r. folder_Path r = folderOf (p, Some i)) (Folders (db st')) = None
               \<and> readDir E (folderOf (p, Some i)) = Inr []"
  using assms
  by (auto simp: resolveFolder_def createFolder_def saveFolder_def store_defs Let_def
                 new_Folder_def folderOf_def cacheOK_def tbl_find_insert
           split: option.splits sum.splits if_splits prod.splits)

lemma visitArt_grows:
  assumes "fault E = (\<lambda>c. None)" and "visitArt E p i f st = (r, st')"
  shows "grows E (db st) (db st')
       \<and> (tbl_find (\<lambda>r. art_FileName r = p) (Arts (db st')) \<noteq> None \<or> info_Size i = 0)"
proof -
  note fr = visitArt_frame [OF assms(2)]
  have "(Arts (db st') = Arts (db st) \<or> (\<exists>a. Arts (db st') = tbl_insert a (Arts (db st))))
      \<and> (tbl_find (\<lambda>r. art_FileName r = p) (Arts (db st')) \<noteq> None \<or> info_Size i = 0)"
    using assms
    by (auto simp: visitArt_def store_defs Let_def new_Art_def tbl_find_insert
             split: option.splits sum.splits if_splits prod.splits)
  with fr show ?thesis
    by (auto simp: grows_def stable_insert stable_refl songsGrow_refl keepsAbsent_refl)
qed

lemma resolveArtist_grows:
  assumes "fault E = (\<lambda>c. None)" and "cacheOK st" and "resolveArtist E s st = (ar, st')"
  shows "grows E (db st) (db st')
       \<and> tbl_find (\<lambda>r. artist_Title r = song_Artist s) (Artists (db st')) = Some ar
       \<and> artistCache st' = (artistCache st)(song_Artist s \<mapsto> ar)"
proof -
  note fr = resolveArtist_frame [OF assms(3)]
  have "(Artists (db st') = Artists (db st) \<or> (\<exists>a. Artists (db st') = tbl_insert a (Artists (db st))))
      \<and> tbl_find (\<lambda>r. artist_Title r = song_Artist s) (Artists (db st')) = Some ar
      \<and> artist_Title ar = song_Artist s
      \<and> artistCache st' = (artistCache st)(artist_Title ar \<mapsto> ar)"
  proof (cases "artistCache st (song_Artist s)")
    case (Some temp)
    with assms(2) have f: "tbl_find (\<lambda>r. artist_Title r = song_Artist s) (Artists (db st)) = Some temp"
      by (simp add: cacheOK_def)
    from tbl_find_SomeD [OF f] have "artist_Title temp = song_Artist s" .
    with Some f assms(3) show ?thesis
      by (auto simp: resolveArtist_def Let_def ArtistFromSong_def)
  next
    case None
    with assms(1,3) show ?thesis
      by (auto simp: resolveArtist_def store_defs Let_def ArtistFromSong_def tbl_find_insert
               dest: tbl_find_SomeD
               split: option.splits sum.splits if_splits prod.splits)
  qed
  with fr show ?thesis
    by (auto simp: grows_def stable_insert stable_refl songsGrow_refl keepsAbsent_refl)
qed

lemma resolveAlbum_grows:
  assumes "fault E = (\<lambda>c. None)" and "cacheOK st" and "resolveAlbum E s ar st = (al, st')"
  shows "grows E (db st) (db st')
       \<and> tbl_find (\<lambda>r. album_ArtistID r = ID ar \<and> album_Title r = song_Album s)
            (Albums (db st')) = Some al
       \<and> albumCache st' = (albumCache st)((ID ar, song_Album s) \<mapsto> al)"
proof -
  note fr = resolveAlbum_frame [OF assms(3)]
  have "(Albums (db st') = Albums (db st) \<or> (\<exists>a. Albums (db st') = tbl_insert a (Albums (db st))))
      \<and> tbl_find (\<lambda>r. album_ArtistID r = ID ar \<and> album_Title r = song_Album s)
            (Albums (db st')) = Some al
      \<and> albumCache st' = (albumCache st)((ID ar, song_Album s) \<mapsto> al)"
    using assms
    by (auto simp: resolveAlbum_def store_defs Let_def AlbumFromSong_def tbl_find_insert
                   cacheOK_def dest: tbl_find_SomeD
             split: option.splits sum.splits if_splits prod.splits)
  with fr show ?thesis
    by (auto simp: grows_def stable_insert stable_refl songsGrow_refl keepsAbsent_refl)
qed

lemma resolveSong_grows:
  assumes "fault E = (\<lambda>c. None)"
  shows "grows E (db st) (db (resolveSong E s st))
       \<and> (\<exists>s'. tbl_find (\<lambda>r. song_FileName r = song_FileName s)
                  (Songs (db (resolveSong E s st))) = Some s'
              \<and> song_LastModified s \<le> song_LastModified s')"
proof -
  let ?st' = "resolveSong E s st"
  let ?P = "\<lambda>r. song_FileName r = song_FileName s"
  note fr = resolveSong_frame [of E s st]
  have "songsGrow (Songs (db st)) (Songs (db ?st'))
      \<and> (\<exists>s'. tbl_find ?P (Songs (db ?st')) = Some s' \<and> song_LastModified s \<le> song_LastModified s')"
  proof (cases "tbl_find ?P (Songs (db st))")
    case None
    with assms have "Songs (db ?st') = tbl_insert s (Songs (db st))"
      by (simp add: resolveSong_def store_defs new_Song_def Let_def)
    then show ?thesis
      using None by (simp add: songsGrow_stable stable_insert tbl_find_insert)
  next
    case (Some old)
    note old = this
    show ?thesis
    proof (cases "song_LastModified old < song_LastModified s")
      case False
      with assms old have "Songs (db ?st') = Songs (db st)"
        by (simp add: resolveSong_def store_defs new_Song_def Let_def)
      with old False show ?thesis by (simp add: songsGrow_refl)
    next
      case True
      let ?g = "\<lambda>x. if ID x = ID (s\<lparr>ID := ID old\<rparr>) then s\<lparr>ID := ID old\<rparr> else x"
      from assms old True have "Songs (db ?st') = tbl_update (s\<lparr>ID := ID old\<rparr>) (Songs (db st))"
        by (simp add: resolveSong_def store_defs new_Song_def Let_def)
      then have rows': "rows (Songs (db ?st')) = map ?g (rows (Songs (db st)))"
        by (simp add: rows_update)
      have oin: "old \<in> set (rows (Songs (db st)))" by (rule tbl_find_rows [OF old])
      have oname: "song_FileName old = song_FileName s" by (rule tbl_find_SomeD [OF old])
      have uniq: "\<And>x. x \<in> set (rows (Songs (db st))) \<Longrightarrow> ID x = ID old \<Longrightarrow> x = old"
        using rows_ID_eq [OF _ oin] by blast
      have name: "song_FileName (?g x) = song_FileName x"
        if xin: "x \<in> set (rows (Songs (db st)))" for x
      proof (cases "ID x = ID old")
        case True
        then have "x = old" using uniq xin by blast
        then show ?thesis using oname by simp
      next
        case False
        then show ?thesis by simp
      qed
      have time: "song_LastModified x \<le> song_LastModified (?g x)"
        if xin: "x \<in> set (rows (Songs (db st)))" for x
      proof (cases "ID x = ID old")
        case True
        then have "x = old" using uniq xin by blast
        then show ?thesis using \<open>song_LastModified old < song_LastModified s\<close> by simp
      next
        case False
        then show ?thesis by simp
      qed
      have sg: "songsGrow (Songs (db st)) (Songs (db ?st'))"
        by (rule songsGrow_map [OF rows' name time])
      have "tbl_find ?P (Songs (db ?st')) = map_option ?g (tbl_find ?P (Songs (db st)))"
        unfolding tbl_find_def rows' by (rule find_map_same) (simp only: name)
      with old have "tbl_find ?P (Songs (db ?st')) = Some (s\<lparr>ID := ID old\<rparr>)" by simp
      with sg show ?thesis by simp
    qed
  qed
  with fr show ?thesis
    by (simp add: grows_def stable_refl keepsAbsent_refl)
qed

lemma cacheOK_db:
  "Folders w' = Folders (db st) \<Longrightarrow> Artists w' = Artists (db st) \<Longrightarrow>
   Albums w' = Albums (db st) \<Longrightarrow> cacheOK (st\<lparr>db := w'\<rparr>) = cacheOK st"
  by (simp add: cacheOK_def)

lemma visitSong_settles:
  assumes nf: "fault E = (\<lambda>c. None)" and ok: "cacheOK st"
      and v: "visitSong E p i f st = (None, st')"
  shows "grows E (db st) (db st') \<and> cacheOK st' \<and> songSettled E (db st') p i
       \<and> folderCache st' = folderCache st"
proof (cases "tagRead E p")
  case (Inl e)
  with v show ?thesis by (simp add: visitSong_def sysCall_def)
next
  case (Inr tf)
  note tr = this
  show ?thesis
  proof (cases "songFromFile E tf")
    case (Inl e)
    with v tr show ?thesis by (simp add: visitSong_def sysCall_def)
  next
    case (Inr s0)
    let ?w2 = "logCall (SongFromFile p) None (logCall (TagRead p) None (db st))"
    have ok2: "cacheOK (st\<lparr>db := ?w2\<rparr>)" using ok by (simp add: cacheOK_def logCall_def)
    have g2: "grows E (db st) ?w2" by (simp add: grows_same logCall_def)
    show ?thesis
    proof (cases "info_Size i = 0")
      case True
      with v tr Inr have "st' = st\<lparr>db := ?w2\<rparr>" by (simp add: visitSong_def sysCall_def errOf_def)
      with ok2 g2 tr Inr True show ?thesis by (simp add: songSettled_def)
    next
      case False
      note sz = this
      show ?thesis
      proof (cases "FileTypeMap E (name_Ext (info_Name i))")
        case None
        with v tr Inr sz show ?thesis by (simp add: visitSong_def sysCall_def errOf_def)
      next
        case (Some ft)
        let ?s3 = "s0\<lparr>song_FileName := p, song_FileSize := info_Size i,
                       song_LastModified := info_ModTime i, song_FolderID := ID f,
                       song_FileTypeID := ft\<rparr>"
        obtain ar st1 where ra: "resolveArtist E ?s3 (st\<lparr>db := ?w2\<rparr>) = (ar, st1)"
          by (cases "resolveArtist E ?s3 (st\<lparr>db := ?w2\<rparr>)")
        obtain al st2 where rb: "resolveAlbum E ?s3 ar st1 = (al, st2)"
          by (cases "resolveAlbum E ?s3 ar st1")
        let ?s4 = "?s3\<lparr>song_ArtistID := ID ar, song_AlbumID := ID al\<rparr>"
        have res: "st' = resolveSong E ?s4 st2"
          using v tr Inr sz Some ra rb by (simp add: visitSong_def sysCall_def errOf_def Let_def)
        note fa = resolveArtist_frame [OF ra]
        note fb = resolveAlbum_frame [OF rb]
        note fs = resolveSong_frame [of E ?s4 st2]
        from resolveArtist_grows [OF nf ok2 ra] have
          a: "grows E ?w2 (db st1)"
             "tbl_find (\<lambda>r. artist_Title r = song_Artist s0) (Artists (db st1)) = Some ar"
             "artistCache st1 = (artistCache st)(song_Artist s0 \<mapsto> ar)"
          by simp_all
        have ok1: "cacheOK st1"
          using ok2 a fa unfolding cacheOK_def grows_def stable_def by simp
        from resolveAlbum_grows [OF nf ok1 rb] have
          b: "grows E (db st1) (db st2)"
             "tbl_find (\<lambda>r. album_ArtistID r = ID ar \<and> album_Title r = song_Album s0)
                (Albums (db st2)) = Some al"
             "albumCache st2 = (albumCache st1)((ID ar, song_Album s0) \<mapsto> al)"
          by simp_all
        have ok2': "cacheOK st2"
          using ok1 b fb unfolding cacheOK_def grows_def stable_def by simp
        from resolveSong_grows [OF nf, of st2 ?s4] obtain s' where
          c: "grows E (db st2) (db st')"
             "tbl_find (\<lambda>r. song_FileName r = p) (Songs (db st')) = Some s'"
             "info_ModTime i \<le> song_LastModified s'"
          unfolding res by auto
        have ok': "cacheOK st'"
          using ok2' fs unfolding res cacheOK_def by simp
        have ar': "tbl_find (\<lambda>r. artist_Title r = song_Artist s0) (Artists (db st')) = Some ar"
          using a(2) fb fs unfolding res by simp
        have al': "tbl_find (\<lambda>r. album_ArtistID r = ID ar \<and> album_Title r = song_Album s0)
                (Albums (db st')) = Some al"
          using b(2) fs unfolding res by simp
        have "songSettled E (db st') p i"
          using tr Inr Some ar' al' c by (simp add: songSettled_def)
        moreover have "grows E (db st) (db st')"
          using g2 a(1) b(1) c(1) by (meson grows_trans)
        moreover have "folderCache st' = folderCache st"
          using fa fb fs unfolding res by simp
        ultimately show ?thesis using ok' by simp
      qed
    qed
  qed
qed

lemma walkFn_settles:
  assumes nf: "fault E = (\<lambda>c. None)" and ok: "cacheOK st"
      and w: "walkFn E h e st = (None, st')"
  shows "settled E (db st') e \<and> cacheOK st' \<and> grows E (db st) (db st')"
  using w
proof (cases rule: walkFn_cases)
  case stop
  then show ?thesis by simp
next
  case (ret p i)
  note fr = resolveFolder_frame [OF ret(3)]
  note g = resolveFolder_grows [OF nf ret(3)]
  from resolveFolder_found [OF nf ok ret(3)]
  have "tbl_find (\<lambda>r. folder_Path r = folderOf e) (Folders (db st')) = None
        \<and> readDir E (folderOf e) = Inr []" using ret(2) by simp
  then have "settled E (db st') e" using ret(2) by (simp add: settled_def)
  moreover have "cacheOK st'" using cacheOK_grows [OF ok g] fr by simp
  ultimately show ?thesis using g by simp
next
  case (skip p i f st1)
  note fr = resolveFolder_frame [OF skip(3)]
  note g = resolveFolder_grows [OF nf skip(3)]
  from resolveFolder_found [OF nf ok skip(3)]
  have f: "tbl_find (\<lambda>r. folder_Path r = folderOf e) (Folders (db st1)) = Some f"
    using skip(2) by simp
  have ok1: "cacheOK st1" using cacheOK_grows [OF ok g] fr by simp
  have fp: "folder_Path f = folderOf e" by (rule tbl_find_SomeD [OF f])
  have "cacheOK st'" using ok1 f fp unfolding skip(7) cacheOK_def by simp
  moreover have "settled E (db st') e" using f skip(2,4,5,7) by (simp add: settled_def)
  ultimately show ?thesis using g skip(7) by simp
next
  case (art p i f st1)
  let ?st2 = "st1\<lparr>folderCache := (folderCache st1)(folder_Path f \<mapsto> f)\<rparr>"
  note fr = resolveFolder_frame [OF art(3)]
  note g = resolveFolder_grows [OF nf art(3)]
  from resolveFolder_found [OF nf ok art(3)]
  have f: "tbl_find (\<lambda>r. folder_Path r = folderOf e) (Folders (db st1)) = Some f"
    using art(2) by simp
  have ok1: "cacheOK st1" using cacheOK_grows [OF ok g] fr by simp
  have fp: "folder_Path f = folderOf e" by (rule tbl_find_SomeD [OF f])
  have ok2: "cacheOK ?st2" using ok1 f fp unfolding cacheOK_def by simp
  note fa = visitArt_frame [OF art(5)]
  from visitArt_grows [OF nf art(5)] have
    a: "grows E (db ?st2) (db st')"
       "tbl_find (\<lambda>r. art_FileName r = p) (Arts (db st')) \<noteq> None \<or> info_Size i = 0"
    by simp_all
  have ok': "cacheOK st'" using cacheOK_grows [OF ok2 a(1)] fa by simp
  have "tbl_find (\<lambda>r. folder_Path r = folderOf e) (Folders (db st')) = Some f"
    using f fa by simp
  then have "settled E (db st') e" using a(2) art(2,4) by (simp add: settled_def)
  moreover have "grows E (db st) (db st')" using g a(1) by (auto intro: grows_trans)
  ultimately show ?thesis using ok' by simp
next
  case (song p i f st1)
  let ?st2 = "st1\<lparr>folderCache := (folderCache st1)(folder_Path f \<mapsto> f)\<rparr>"
  note fr = resolveFolder_frame [OF song(3)]
  note g = resolveFolder_grows [OF nf song(3)]
  from resolveFolder_found [OF nf ok song(3)]
  have f: "tbl_find (\<lambda>r. folder_Path r = folderOf e) (Folders (db st1)) = Some f"
    using song(2) by simp
  have ok1: "cacheOK st1" using cacheOK_grows [OF ok g] fr by simp
  have fp: "folder_Path f = folderOf e" by (rule tbl_find_SomeD [OF f])
  have ok2: "cacheOK ?st2" using ok1 f fp unfolding cacheOK_def by simp
  have r: "visitSong E p i f ?st2 = (None, st')" using song(6) w
    by (cases "visitSong E p i f ?st2") (simp add: song(6))
  note fv = visitSong_frame [OF r]
  from visitSong_settles [OF nf ok2 r] have
    a: "grows E (db ?st2) (db st')" "cacheOK st'" "songSettled E (db st') p i" by simp_all
  have "tbl_find (\<lambda>r. folder_Path r = folderOf e) (Folders (db st')) = Some f"
    using f fv by simp
  then have "settled E (db st') e" using a(3) song(2,4,5) by (simp add: settled_def)
  moreover have "grows E (db st) (db st')" using g a(1) by (auto intro: grows_trans)
  ultimately show ?thesis using a(2) by simp
qed

lemma walkEntries_settles:
  "fault E = (\<lambda>c. None) \<Longrightarrow> cacheOK st \<Longrightarrow> walkEntries E h k es st = (None, st') \<Longrightarrow>
     list_all (settled E (db st')) es \<and> cacheOK st' \<and> grows E (db st) (db st')"
proof (induction es arbitrary: k st)
  case Nil
  then show ?case by (simp add: grows_refl)
next
  case (Cons e es)
  obtain r1 st1 where w: "walkFn E (h k) e st = (r1, st1)" by (cases "walkFn E (h k) e st")
  have r1: "r1 = None" using Cons.prems(3) w by (cases r1) simp_all
  from walkFn_settles [OF Cons.prems(1,2) w [unfolded r1]] have
    a: "settled E (db st1) e" "cacheOK st1" "grows E (db st) (db st1)" by simp_all
  from Cons.prems(3) w r1 have "walkEntries E h (Suc k) es st1 = (None, st')" by simp
  from Cons.IH [OF Cons.prems(1) a(2) this] have
    b: "list_all (settled E (db st')) es" "cacheOK st'" "grows E (db st1) (db st')" by simp_all
  have "settled E (db st') e" by (rule settled_grows [OF a(1) b(3)])
  moreover have "grows E (db st) (db st')" by (rule grows_trans [OF a(3) b(3)])
  ultimately show ?case using b by simp
qed

lemma artPass_grows:
  assumes "artPass E pairs w = (r, w')"
  shows "grows E w w'"
proof -
  from artPass_changes [OF assms] obtain g where
    g: "rows (Songs w') = map g (rows (Songs w))"
       "\<forall>x. g x = x\<lparr>song_ArtID := song_ArtID (g x)\<rparr>" by blast
  have name: "\<And>x. song_FileName (g x) = song_FileName x"
    by (metis g(2) song.select_convs(6) song.surjective song.update_convs(3))
  have time: "\<And>x. song_LastModified x \<le> song_LastModified (g x)"
    by (metis g(2) order_refl song.select_convs(10) song.surjective song.update_convs(3))
  have "songsGrow (Songs w) (Songs w')"
    by (rule songsGrow_map [OF g(1)]) (simp_all add: name time)
  with artPass_frame [OF assms] show ?thesis
    by (simp add: grows_def stable_refl keepsAbsent_refl)
qed

lemmas load_defs =
  storeCall_def sysCall_def errOf_def found_def
  Folder_Load_def Art_Load_def Artist_Load_def Album_Load_def Song_Load_def

lemma reads_refl: "reads w w"
proof -
  have "w = w\<lparr>calls := calls w @ []\<rparr> \<and> list_all (\<lambda>c. \<not> isWrite (fst c)) []" by simp
  then show ?thesis unfolding reads_def by blast
qed

lemma reads_trans:
  assumes "reads w w1" and "reads w1 w2"
  shows "reads w w2"
proof -
  from assms(1) obtain cs where
    a: "w1 = w\<lparr>calls := calls w @ cs\<rparr>" "list_all (\<lambda>c. \<not> isWrite (fst c)) cs"
    unfolding reads_def by blast
  from assms(2) obtain ds where
    b: "w2 = w1\<lparr>calls := calls w1 @ ds\<rparr>" "list_all (\<lambda>c. \<not> isWrite (fst c)) ds"
    unfolding reads_def by blast
  have "w2 = w\<lparr>calls := calls w @ (cs @ ds)\<rparr> \<and> list_all (\<lambda>c. \<not> isWrite (fst c)) (cs @ ds)"
    using a b by simp
  then show ?thesis unfolding reads_def by blast
qed

lemma reads_log:
  assumes "\<not> isWrite c" and "reads w w'"
  shows "reads w (logCall c r w')"
proof -
  have "logCall c r w' = w'\<lparr>calls := calls w' @ [(c, r)]\<rparr> \<and> list_all (\<lambda>c. \<not> isWrite (fst c)) [(c, r)]"
    using assms(1) by (simp add: logCall_def)
  then have "reads w' (logCall c r w')" unfolding reads_def by blast
  with assms(2) show ?thesis by (rule reads_trans)
qed

lemma reads_tables:
  "reads w w' \<Longrightarrow> Folders w' = Folders w \<and> Artists w' = Artists w \<and> Albums w' = Albums w
     \<and> Songs w' = Songs w \<and> Arts w' = Arts w"
  unfolding reads_def by auto

lemma readOnly_refl: "readOnly st st"
  by (simp add: readOnly_def reads_refl)

lemma readOnly_trans: "readOnly st st1 \<Longrightarrow> readOnly st1 st2 \<Longrightarrow> readOnly st st2"
  unfolding readOnly_def by (auto intro: reads_trans)

lemma settled_reads: "reads w w' \<Longrightarrow> settled E w' e = settled E w e"
  unfolding reads_def by (auto simp: settled_calls)

lemma isWrite_loads [simp]:
  "\<not> isWrite (ReadDir p)" "\<not> isWrite (Stat p)" "\<not> isWrite (TagRead p)"
  "\<not> isWrite (SongFromFile p)" "\<not> isWrite (FolderLoad p)" "\<not> isWrite (ParentFolderLoad p)"
  "\<not> isWrite (ArtLoad p)" "\<not> isWrite (ArtistLoad t)" "\<not> isWrite (AlbumLoad n t)"
  "\<not> isWrite (SongLoad p)" "\<not> isWrite (SongsForFolder n)"
  by (simp_all add: isWrite_def)

lemma resolveFolder_reads:
  assumes nf: "fault E = (\<lambda>c. None)" and ok: "cacheOK st"
      and s: "tbl_find (\<lambda>r. folder_Path r = folderOf (p, Some i)) (Folders (db st)) = None
                \<longrightarrow> readDir E (folderOf (p, Some i)) = Inr []"
      and r: "resolveFolder E p i st = (x, st')"
  shows "readOnly st st' \<and> (x = Return None \<or> (\<exists>f. x = Continue f))"
  using assms
  by (auto simp: resolveFolder_def createFolder_def load_defs Let_def new_Folder_def folderOf_def
                 readOnly_def reads_refl
           intro!: reads_log reads_refl
           split: option.splits sum.splits if_splits prod.splits)

lemma visitArt_reads:
  assumes nf: "fault E = (\<lambda>c. None)"
      and s: "tbl_find (\<lambda>r. art_FileName r = p) (Arts (db st)) \<noteq> None \<or> info_Size i = 0"
      and r: "visitArt E p i f st = (x, st')"
  shows "readOnly st st'"
  using assms
  by (auto simp: visitArt_def load_defs Let_def new_Art_def readOnly_def reads_refl
           intro!: reads_log reads_refl
           split: option.splits sum.splits if_splits prod.splits)

lemma resolveArtist_reads:
  assumes nf: "fault E = (\<lambda>c. None)" and ok: "cacheOK st"
      and s: "tbl_find (\<lambda>r. artist_Title r = song_Artist s) (Artists (db st)) = Some ar"
      and r: "resolveArtist E s st = (x, st')"
  shows "readOnly st st'"
  using assms
  by (auto simp: resolveArtist_def load_defs Let_def ArtistFromSong_def readOnly_def reads_refl
           intro!: reads_log reads_refl
           split: option.splits sum.splits if_splits prod.splits)

lemma resolveAlbum_reads:
  assumes nf: "fault E = (\<lambda>c. None)" and ok: "cacheOK st"
      and s: "tbl_find (\<lambda>r. album_ArtistID r = ID ar \<and> album_Title r = song_Album s)
                (Albums (db st)) = Some al"
      and r: "resolveAlbum E s ar st = (x, st')"
  shows "readOnly st st'"
  using assms
  by (auto simp: resolveAlbum_def load_defs Let_def AlbumFromSong_def readOnly_def reads_refl
           intro!: reads_log reads_refl
           split: option.splits sum.splits if_splits prod.splits)

lemma resolveSong_reads:
  assumes nf: "fault E = (\<lambda>c. None)"
      and s: "tbl_find (\<lambda>r. song_FileName r = song_FileName s) (Songs (db st)) = Some old"
      and t: "song_LastModified s \<le> song_LastModified old"
  shows "readOnly st (resolveSong E s st)"
  using assms
  by (auto simp: resolveSong_def load_defs Let_def new_Song_def readOnly_def reads_refl
           intro!: reads_log reads_refl
           split: option.splits sum.splits if_splits prod.splits)

lemma songSettled_reads: "reads w w' \<Longrightarrow> songSettled E w' p i = songSettled E w p i"
  unfolding reads_def
  by (auto simp: songSettled_def cong: option.case_cong sum.case_cong)

lemma readOnly_tables:
  "readOnly st st' \<Longrightarrow> Folders (db st') = Folders (db st) \<and> Artists (db st') = Artists (db st)
     \<and> Albums (db st') = Albums (db st) \<and> Songs (db st') = Songs (db st)
     \<and> Arts (db st') = Arts (db st)"
  unfolding readOnly_def by (auto dest: reads_tables)

lemma visitSong_reads:
  assumes nf: "fault E = (\<lambda>c. None)" and ok: "cacheOK st"
      and ss: "songSettled E (db st) p i"
      and v: "visitSong E p i f st = (x, st')"
  shows "x = None \<and> readOnly st st'"
proof -
  from ss obtain tf where tr: "tagRead E p = Inr tf"
    by (cases "tagRead E p") (simp_all add: songSettled_def)
  from ss tr obtain s0 where sf: "songFromFile E tf = Inr s0"
    by (cases "songFromFile E tf") (simp_all add: songSettled_def)
  let ?w2 = "logCall (SongFromFile p) None (logCall (TagRead p) None (db st))"
  have rd2: "reads (db st) ?w2" by (intro reads_log reads_refl) simp_all
  have r0: "readOnly st (st\<lparr>db := ?w2\<rparr>)" using rd2 by (simp add: readOnly_def)
  have ok2: "cacheOK (st\<lparr>db := ?w2\<rparr>)" using ok by (simp add: cacheOK_def logCall_def)
  show ?thesis
  proof (cases "info_Size i = 0")
    case True
    with v tr sf have "x = None" "st' = st\<lparr>db := ?w2\<rparr>"
      by (simp_all add: visitSong_def sysCall_def errOf_def)
    with r0 show ?thesis by simp
  next
    case False
    note sz = this
    with ss tr sf obtain ft ar al s where
          ft: "FileTypeMap E (name_Ext (info_Name i)) = Some ft"
      and ar: "tbl_find (\<lambda>r. artist_Title r = song_Artist s0) (Artists (db st)) = Some ar"
      and al: "tbl_find (\<lambda>r. album_ArtistID r = ID ar \<and> album_Title r = song_Album s0)
                 (Albums (db st)) = Some al"
      and s: "tbl_find (\<lambda>r. song_FileName r = p) (Songs (db st)) = Some s"
      and t: "info_ModTime i \<le> song_LastModified s"
      by (auto simp: songSettled_def split: option.splits)
    let ?s3 = "s0\<lparr>song_FileName := p, song_FileSize := info_Size i,
                   song_LastModified := info_ModTime i, song_FolderID := ID f,
                   song_FileTypeID := ft\<rparr>"
    obtain ar' st1 where ra: "resolveArtist E ?s3 (st\<lparr>db := ?w2\<rparr>) = (ar', st1)"
      by (cases "resolveArtist E ?s3 (st\<lparr>db := ?w2\<rparr>)")
    obtain al' st2 where rb: "resolveAlbum E ?s3 ar' st1 = (al', st2)"
      by (cases "resolveAlbum E ?s3 ar' st1")
    let ?s4 = "?s3\<lparr>song_ArtistID := ID ar', song_AlbumID := ID al'\<rparr>"
    have res: "x = None" "st' = resolveSong E ?s4 st2"
      using v tr sf sz ft ra rb by (simp_all add: visitSong_def sysCall_def errOf_def Let_def)
    have ar2: "tbl_find (\<lambda>r. artist_Title r = song_Artist ?s3) (Artists (db (st\<lparr>db := ?w2\<rparr>))) = Some ar"
      using ar by (simp add: logCall_def)
    have r1: "readOnly (st\<lparr>db := ?w2\<rparr>) st1"
      by (rule resolveArtist_reads [OF nf ok2 ar2 ra])
    note t1 = readOnly_tables [OF r1]
    note fa = resolveArtist_frame [OF ra]
    from resolveArtist_grows [OF nf ok2 ra] have
      a: "grows E ?w2 (db st1)"
         "tbl_find (\<lambda>r. artist_Title r = song_Artist s0) (Artists (db st1)) = Some ar'"
      by simp_all
    have eq: "ar' = ar" using a(2) ar2 t1 by simp
    have ok1: "cacheOK st1"
      using ok2 a(1) fa resolveArtist_grows [OF nf ok2 ra] unfolding cacheOK_def grows_def stable_def
      by simp
    have al1: "tbl_find (\<lambda>r. album_ArtistID r = ID ar' \<and> album_Title r = song_Album ?s3)
                 (Albums (db st1)) = Some al"
      using al t1 eq by (simp add: logCall_def)
    have r2: "readOnly st1 st2"
      by (rule resolveAlbum_reads [OF nf ok1 al1 rb])
    note t2 = readOnly_tables [OF r2]
    have s2: "tbl_find (\<lambda>r. song_FileName r = song_FileName ?s4) (Songs (db st2)) = Some s"
      using s t1 t2 by (simp add: logCall_def)
    have t4: "song_LastModified ?s4 \<le> song_LastModified s" using t by simp
    have r3: "readOnly st2 (resolveSong E ?s4 st2)"
      by (rule resolveSong_reads [OF nf s2 t4])
    have "readOnly st st'"
      unfolding res(2) using r0 r1 r2 r3 by (meson readOnly_trans)
    with res(1) show ?thesis by simp
  qed
qed

lemma settled_found:
  assumes "settled E w (p, Some i)"
      and "tbl_find (\<lambda>r. folder_Path r = folderOf (p, Some i)) (Folders w) = Some f"
  shows "(path_Ext p \<in> artSet E \<longrightarrow>
            tbl_find (\<lambda>r. art_FileName r = p) (Arts w) \<noteq> None \<or> info_Size i = 0)
       \<and> (path_Ext p \<in> mediaSet E \<longrightarrow> path_Ext p \<notin> artSet E \<longrightarrow> songSettled E w p i)"
  using assms by (auto simp: settled_def split: if_splits)

lemma settled_absent:
  assumes "settled E w (p, Some i)"
  shows "tbl_find (\<lambda>r. folder_Path r = folderOf (p, Some i)) (Folders w) = None
           \<longrightarrow> readDir E (folderOf (p, Some i)) = Inr []"
  using assms by (auto simp: settled_def)

lemma walkFn_reads:
  assumes nf: "fault E = (\<lambda>c. None)" and ok: "cacheOK st"
      and se: "settled E (db st) e"
      and w: "walkFn E False e st = (r, st')"
  shows "r = None \<and> readOnly st st'"
  using w
proof (cases rule: walkFn_cases)
  case stop
  with se show ?thesis by (simp add: settled_def)
next
  case (ret p i)
  from resolveFolder_reads [OF nf ok settled_absent ret(3)] se ret(2)
  show ?thesis by simp
next
  case (skip p i f st1)
  from resolveFolder_reads [OF nf ok settled_absent skip(3)] se skip(2)
  have "readOnly st st1" by simp
  then have "readOnly st st'" unfolding skip(7) by (simp add: readOnly_def)
  with skip(6) show ?thesis by simp
next
  case (art p i f st1)
  let ?st2 = "st1\<lparr>folderCache := (folderCache st1)(folder_Path f \<mapsto> f)\<rparr>"
  from resolveFolder_reads [OF nf ok settled_absent art(3)] se art(2)
  have r1: "readOnly st st1" by simp
  note t1 = readOnly_tables [OF r1]
  from resolveFolder_found [OF nf ok art(3)] t1
  have f: "tbl_find (\<lambda>r. folder_Path r = folderOf (p, Some i)) (Folders (db st)) = Some f" by simp
  from settled_found [OF se [unfolded art(2)] f] art(4) t1
  have a: "tbl_find (\<lambda>r. art_FileName r = p) (Arts (db ?st2)) \<noteq> None \<or> info_Size i = 0" by simp
  have r2: "readOnly ?st2 st'" by (rule visitArt_reads [OF nf a art(5)])
  have "readOnly st ?st2" using r1 by (simp add: readOnly_def)
  then have "readOnly st st'" using r2 by (rule readOnly_trans)
  with visitArt_frame [OF art(5)] show ?thesis by simp
next
  case (song p i f st1)
  let ?st2 = "st1\<lparr>folderCache := (folderCache st1)(folder_Path f \<mapsto> f)\<rparr>"
  note fr = resolveFolder_frame [OF song(3)]
  from resolveFolder_reads [OF nf ok settled_absent song(3)] se song(2)
  have r1: "readOnly st st1" by simp
  note t1 = readOnly_tables [OF r1]
  from resolveFolder_found [OF nf ok song(3)]
  have f1: "tbl_find (\<lambda>r. folder_Path r = folderOf (p, Some i)) (Folders (db st1)) = Some f" by simp
  with t1 have f: "tbl_find (\<lambda>r. folder_Path r = folderOf (p, Some i)) (Folders (db st)) = Some f"
    by simp
  have ok1: "cacheOK st1"
    using cacheOK_grows [OF ok resolveFolder_grows [OF nf song(3)]] fr by simp
  have fp: "folder_Path f = folderOf (p, Some i)" by (rule tbl_find_SomeD [OF f])
  have ok2: "cacheOK ?st2" using ok1 f1 fp unfolding cacheOK_def by simp
  from settled_found [OF se [unfolded song(2)] f] song(4,5)
  have "songSettled E (db st) p i" by simp
  moreover have "reads (db st) (db ?st2)" using r1 by (simp add: readOnly_def)
  ultimately have ss: "songSettled E (db ?st2) p i" by (simp add: songSettled_reads)
  from visitSong_reads [OF nf ok2 ss song(6)] have r2: "r = None" "readOnly ?st2 st'" by simp_all
  have "readOnly st ?st2" using r1 by (simp add: readOnly_def)
  then have "readOnly st st'" using r2(2) by (rule readOnly_trans)
  with r2(1) show ?thesis by simp
qed

lemma walkEntries_reads:
  "fault E = (\<lambda>c. None) \<Longrightarrow> cacheOK st \<Longrightarrow> list_all (settled E (db st)) es \<Longrightarrow>
   walkEntries E h k es st = (r, st') \<Longrightarrow>
     readOnly st st' \<and> (r = None \<or> r = Some ErrHalted) \<and> ((\<forall>j. \<not> h j) \<longrightarrow> r = None)"
proof (induction es arbitrary: k st)
  case Nil
  then show ?case by (simp add: readOnly_refl)
next
  case (Cons e es)
  show ?case
  proof (cases "h k")
    case True
    then have "walkFn E (h k) e st = (Some ErrHalted, st)"
      by (cases e) (simp add: walkFn_def)
    with Cons.prems(4) have "r = Some ErrHalted" "st' = st" by simp_all
    with True show ?thesis by (auto simp: readOnly_refl)
  next
    case False
    obtain r1 st1 where w: "walkFn E False e st = (r1, st1)" by (cases "walkFn E False e st")
    from Cons.prems(3) have se: "settled E (db st) e" by simp
    from walkFn_reads [OF Cons.prems(1,2) se w] have a: "r1 = None" "readOnly st st1" by simp_all
    from walkFn_settles [OF Cons.prems(1,2) w [unfolded a(1)]] have ok1: "cacheOK st1" by simp
    have rd: "reads (db st) (db st1)" using a(2) by (simp add: readOnly_def)
    have ses: "list_all (settled E (db st1)) es"
      using Cons.prems(3) by (simp add: list_all_iff settled_reads [OF rd])
    from Cons.prems(4) w a(1) False have "walkEntries E h (Suc k) es st1 = (r, st')" by simp
    from Cons.IH [OF Cons.prems(1) ok1 ses this] have
      b: "readOnly st1 st'" "r = None \<or> r = Some ErrHalted" "(\<forall>j. \<not> h j) \<longrightarrow> r = None"
      by simp_all
    from a(2) b(1) have "readOnly st st'" by (rule readOnly_trans)
    with b show ?thesis by simp
  qed
qed

lemma cacheOK_newScan: "cacheOK (newScan w)"
  by (simp add: cacheOK_def newScan_def)

text \<open>
  C3. Let no call to the store fail, and let a first \<open>MediaScan\<close> over a root return a
  count. A second \<open>MediaScan\<close> over the same root in the same environment (the same
  paths, sizes, modification times and tags), started on the store the first one left,
  leaves every table as it is: the calls it adds to the log contain no save, update or
  delete. It returns the count zero, or the halt error if it was halted; when it is never
  halted it returns zero.
\<close>

theorem rescan_changes_nothing:
  assumes nf: "fault E = (\<lambda>c. None)"
      and first: "MediaScan E root h1 w0 = (Inr n, w1)"
  shows "\<exists>cs. snd (MediaScan E root h2 w1) = w1\<lparr>calls := calls w1 @ cs\<rparr>
           \<and> list_all (\<lambda>c. \<not> isWrite (fst c)) cs
           \<and> (fst (MediaScan E root h2 w1) = Inr 0 \<or> fst (MediaScan E root h2 w1) = Inl ErrHalted)
           \<and> ((\<forall>k. \<not> h2 k) \<longrightarrow> fst (MediaScan E root h2 w1) = Inr 0)"
proof -
  let ?es = "walk E root"
  obtain r0 st0 where w0: "walkEntries E h1 0 ?es (newScan w0) = (r0, st0)"
    by (cases "walkEntries E h1 0 ?es (newScan w0)")
  obtain a0 wa where ap: "artPass E (artFiles st0) (db st0) = (a0, wa)"
    by (cases "artPass E (artFiles st0) (db st0)")
  from first w0 ap have r0: "r0 = None" and a0: "a0 = None" and wa: "wa = w1"
    by (auto simp: MediaScan_def split: option.splits)
  from walkEntries_settles [OF nf cacheOK_newScan w0 [unfolded r0]]
  have s0: "list_all (settled E (db st0)) ?es" by simp
  have g: "grows E (db st0) w1" using artPass_grows [OF ap] wa by simp
  have s1: "list_all (settled E (db (newScan w1))) ?es"
    using s0 settled_grows [OF _ g] by (auto simp: list_all_iff newScan_def)
  obtain r st where w: "walkEntries E h2 0 ?es (newScan w1) = (r, st)"
    by (cases "walkEntries E h2 0 ?es (newScan w1)")
  from walkEntries_reads [OF nf cacheOK_newScan s1 w] have
    b: "readOnly (newScan w1) st" "r = None \<or> r = Some ErrHalted" "(\<forall>j. \<not> h2 j) \<longrightarrow> r = None"
    by simp_all
  from b(1) have rd: "reads w1 (db st)" and af: "artFiles st = []" and cz: "changeSum st = 0"
    by (simp_all add: readOnly_def newScan_def changeSum_def)
  have res: "MediaScan E root h2 w1 = (case r of None \<Rightarrow> Inr 0 | Some e \<Rightarrow> Inl e, db st)"
    using w af cz by (simp add: MediaScan_def split: option.splits)
  from rd obtain cs where
    cs: "db st = w1\<lparr>calls := calls w1 @ cs\<rparr>" "list_all (\<lambda>c. \<not> isWrite (fst c)) cs"
    unfolding reads_def by blast
  have "snd (MediaScan E root h2 w1) = w1\<lparr>calls := calls w1 @ cs\<rparr>" using res cs(1) by simp
  moreover have "fst (MediaScan E root h2 w1) = Inr 0 \<or> fst (MediaScan E root h2 w1) = Inl ErrHalted"
    using res b(2) by auto
  moreover have "(\<forall>k. \<not> h2 k) \<longrightarrow> fst (MediaScan E root h2 w1) = Inr 0"
    using res b(3) by auto
  ultimately show ?thesis using cs(2) by blast
qed

text \<open>
  Witness for C3: the library of \<open>/music/a\<close> with a cover and a track, scanned into the
  empty store (six records) and scanned again.
\<close>

theorem rescan_changes_nothing_witness:
  "fault libraryEnv = (\<lambda>c. None)
   \<and> fst (MediaScan libraryEnv [''music''] (\<lambda>k. False) emptyWorld) = Inr 6
   \<and> fst (MediaScan libraryEnv [''music''] (\<lambda>k. False)
            (snd (MediaScan libraryEnv [''music''] (\<lambda>k. False) emptyWorld))) = Inr 0"
proof -
  let ?w1 = "snd (MediaScan libraryEnv [''music''] (\<lambda>k. False) emptyWorld)"
  have nf: "fault libraryEnv = (\<lambda>c. None)" by (simp add: libraryEnv_def quietEnv_def)
  have f: "fst (MediaScan libraryEnv [''music''] (\<lambda>k. False) emptyWorld) = Inr 6" by code_simp
  then have first: "MediaScan libraryEnv [''music''] (\<lambda>k. False) emptyWorld = (Inr 6, ?w1)"
    by (metis prod.collapse)
  from rescan_changes_nothing [OF nf first, of "\<lambda>k. False"]
  have "fst (MediaScan libraryEnv [''music''] (\<lambda>k. False) ?w1) = Inr 0" by blast
  with nf f show ?thesis by simp
qed

section \<open>Cancellation\<close>

text \<open>
  C2 (the code departs from the claim). The claim has \<open>OrphanScan\<close> check the halt flag
  at every phase and every iteration, and abort with a halted failure without further
  store operations once the flag is set. With the flag set from the first step on, a
  base folder \<open>/music\<close> and a store that holds the art record \<open>/old/cover.jpg\<close>,
  \<open>OrphanScan\<close> deletes the record, runs every later query and both purges, and
  returns the count 1 with no error.
\<close>

theorem OrphanScan_ignores_halt_flag:
  "OrphanScan quietEnv [''music''] [] (\<lambda>k. True) strayWorld =
     (Inr 1,
      strayWorld\<lparr>Arts := [None],
        calls := [(ArtNotInPath [''music''], None), (ArtDelete 1, None),
                  (SongsNotInPath [''music''], None), (FoldersNotInPath [''music''], None),
                  (ArtInPath [''music''], None), (SongsInPath [''music''], None),
                  (FoldersInPath [''music''], None),
                  (PurgeOrphanAlbums, None), (PurgeOrphanArtists, None)]\<rparr>)"
  by code_simp

end
